theory Spec2Isabelle
  imports Main "HOL-Library.Sublist"
begin

section \<open>Values of the host language\<close>

text \<open>
  The patcher works on JavaScript strings, functions, regular expressions and plain
  objects.  Strings are character lists.  A function object is its identity together with
  the text that \<open>toString\<close> yields for it.  A function is either one of the host
  page, or one that the patcher compiled; compiling always makes a new object, and the one
  made for a module by the patch at index \<open>i\<close> of the patch list is told apart by
  that pair (a module runs through the patch list once).  Thrown values are an error
  datatype; every \<open>throw\<close>, and every exception of a built-in, is a branch of the
  model.
\<close>

datatype js_error = Error string | TypeError string | Thrown string

type_synonym module_id = string

datatype fn_id = Host_function nat | Compiled module_id nat

record fn_obj =
  fn_ref :: fn_id
  fn_src :: string

text \<open>
  The arguments a replacer callback receives from \<open>String.prototype.replace\<close>:
  the matched text, the captured groups, the offset of the match and the whole string.
\<close>

record match_args =
  m_text :: string
  m_groups :: "string list"
  m_offset :: nat
  m_input :: string

text \<open>
  A \<open>RegExp\<close> object: its identity, its \<open>global\<close> and \<open>sticky\<close>
  flags, and the matcher that the host's engine compiled from its pattern: at an index of
  a text the matcher fails, or yields the length of the match that starts there and the
  captured groups.  The \<open>lastIndex\<close> of a regular expression is mutable; the
  values of all of them are kept in a table by identity.  A regular expression is handed
  to the patcher with \<open>lastIndex\<close> 0, and nothing but the patcher uses it.
\<close>

record regexp =
  re_ref :: nat
  re_global :: bool
  re_sticky :: bool
  re_matcher :: "string \<Rightarrow> nat \<Rightarrow> (nat \<times> string list) option"

type_synonym last_indices = "nat \<Rightarrow> nat"

text \<open>
  The search of \<open>RegExpBuiltinExec\<close> from an index: beyond the end of the text it
  fails; a sticky expression is tried at that index only, any other at every index from
  there to the end of the text.
\<close>

definition match_from :: "regexp \<Rightarrow> string \<Rightarrow> nat \<Rightarrow> match_args option" where
  "match_from re s i =
     (if length s < i then None
      else
        (case List.find (\<lambda>j. re_matcher re s j \<noteq> None)
                (if re_sticky re then [i] else [i..<Suc (length s)]) of
           None \<Rightarrow> None
         | Some j \<Rightarrow>
             (case re_matcher re s j of
                None \<Rightarrow> None
              | Some (len, groups) \<Rightarrow>
                  Some \<lparr>m_text = take len (drop j s), m_groups = groups, m_offset = j,
                        m_input = s\<rparr>)))"

text \<open>
  \<open>RegExpBuiltinExec\<close>, given the value of \<open>lastIndex\<close>: the result and the
  new value.  Without the global and the sticky flag the search starts at 0 and
  \<open>lastIndex\<close> is left alone; with one of them it starts at \<open>lastIndex\<close>,
  which becomes the end of the match, or 0 if there is none.
\<close>

definition regexp_exec :: "regexp \<Rightarrow> string \<Rightarrow> nat \<Rightarrow> match_args option \<times> nat" where
  "regexp_exec re s last_index =
     (if re_global re \<or> re_sticky re
      then (case match_from re s last_index of
              None \<Rightarrow> (None, 0)
            | Some m \<Rightarrow> (Some m, m_offset m + length (m_text m)))
      else (match_from re s 0, last_index))"

text \<open>\<open>re.test(s)\<close>\<close>

definition regexp_test :: "regexp \<Rightarrow> string \<Rightarrow> last_indices \<Rightarrow> bool \<times> last_indices" where
  "regexp_test re s li =
     (case regexp_exec re s (li (re_ref re)) of
        (result, last_index) \<Rightarrow> (result \<noteq> None, li(re_ref re := last_index)))"

text \<open>
  The loop of \<open>RegExp.prototype[Symbol.replace]\<close> for a global expression, which
  starts with \<open>lastIndex\<close> set to 0: the matches are collected one after the
  other, and after an empty match \<open>lastIndex\<close> is advanced by one.
\<close>

function global_matches :: "regexp \<Rightarrow> string \<Rightarrow> nat \<Rightarrow> match_args list" where
  "global_matches re s i =
     (case match_from re s i of
        None \<Rightarrow> []
      | Some m \<Rightarrow> m # global_matches re s (m_offset m + max 1 (length (m_text m))))"
  by pat_completeness auto

termination global_matches
proof (relation "measure (\<lambda>(re, s, i). Suc (length s) - i)")
  show "wf (measure (\<lambda>(re, s, i). Suc (length s) - i))" by simp
next
  fix re :: regexp and s :: string and i :: nat and m :: match_args
  assume m: "match_from re s i = Some m"
  then have le: "i \<le> length s" by (auto simp: match_from_def split: if_splits)
  from m obtain j where
    j: "List.find (\<lambda>j. re_matcher re s j \<noteq> None)
          (if re_sticky re then [i] else [i..<Suc (length s)]) = Some j" "m_offset m = j"
    by (auto simp: match_from_def split: if_splits option.splits)
  from j(1) have "j \<in> set (if re_sticky re then [i] else [i..<Suc (length s)])"
    by (metis find_Some_iff nth_mem)
  then have "i \<le> j" by (auto split: if_splits)
  with le j(2)
  show "((re, s, m_offset m + max 1 (length (m_text m))), (re, s, i))
          \<in> measure (\<lambda>(re, s, i). Suc (length s) - i)"
    by simp
qed

declare global_matches.simps [simp del]

section \<open>String built-ins\<close>

text \<open>\<open>StringIndexOf(t, p, 0)\<close>: the index of the first occurrence of \<open>p\<close> in \<open>t\<close>.\<close>

fun find_index :: "string \<Rightarrow> string \<Rightarrow> nat option" where
  "find_index p [] = (if p = [] then Some 0 else None)"
| "find_index p (c # cs) =
     (if prefix p (c # cs) then Some 0 else map_option Suc (find_index p cs))"

text \<open>\<open>t.includes(p)\<close>\<close>

definition str_includes :: "string \<Rightarrow> string \<Rightarrow> bool" where
  "str_includes t p = (find_index p t \<noteq> None)"

text \<open>
  The positions \<open>replaceAll\<close> visits for a string pattern: after a match at
  \<open>pos\<close> the search resumes at \<open>pos + max 1 (length p)\<close>.  The scan runs over
  the rest of the text with the absolute position and the number of characters still
  covered by the last match.
\<close>

fun occurrences :: "string \<Rightarrow> string \<Rightarrow> nat \<Rightarrow> nat \<Rightarrow> nat list" where
  "occurrences p [] pos skip = (if p = [] \<and> skip = 0 then [pos] else [])"
| "occurrences p (c # cs) pos skip =
     (if skip = 0 \<and> prefix p (c # cs)
      then pos # occurrences p cs (Suc pos) (max 1 (length p) - 1)
      else occurrences p cs (Suc pos) (skip - 1))"

definition string_match :: "string \<Rightarrow> string \<Rightarrow> nat \<Rightarrow> match_args" where
  "string_match p s pos = \<lparr>m_text = p, m_groups = [], m_offset = pos, m_input = s\<rparr>"

text \<open>
  Building the result of \<open>replace\<close>/\<open>replaceAll\<close> from the matches: the replacer
  is called for each match in order (its exception ends the call); a match that starts
  before the end of the previous one contributes nothing; the text between matches is
  kept.
\<close>

fun splice ::
  "string \<Rightarrow> nat \<Rightarrow> match_args list \<Rightarrow> (match_args \<Rightarrow> js_error + string) \<Rightarrow> js_error + string"
where
  "splice s nxt [] f = Inr (drop nxt s)"
| "splice s nxt (m # ms) f =
     (case f m of
        Inl e \<Rightarrow> Inl e
      | Inr rep \<Rightarrow>
          (if nxt \<le> m_offset m
           then (case splice s (m_offset m + length (m_text m)) ms f of
                   Inl e \<Rightarrow> Inl e
                 | Inr rest \<Rightarrow> Inr (take (m_offset m - nxt) (drop nxt s) @ rep @ rest))
           else splice s nxt ms f))"

datatype pattern = PStr string | PRe regexp

text \<open>
  \<open>s.replace(pat, f)\<close> and \<open>s.replaceAll(pat, f)\<close> with a function \<open>f\<close>:
  what is returned or thrown, and the table of \<open>lastIndex\<close> values afterwards.  The
  boolean says whether \<open>f\<close> was called at all.  All matches are collected before
  \<open>f\<close> is called for the first one.  With a regular expression both methods run
  \<open>RegExp.prototype[Symbol.replace]\<close>: a global expression is matched from index 0
  on and is left with \<open>lastIndex\<close> 0, any other is executed once.
  \<open>replaceAll\<close> with a regular expression that lacks the global flag throws a
  \<open>TypeError\<close>.
\<close>

definition regexp_matches :: "regexp \<Rightarrow> string \<Rightarrow> last_indices \<Rightarrow> match_args list \<times> last_indices" where
  "regexp_matches re s li =
     (if re_global re then (global_matches re s 0, li(re_ref re := 0))
      else
        (case regexp_exec re s (li (re_ref re)) of
           (None, last_index) \<Rightarrow> ([], li(re_ref re := last_index))
         | (Some m, last_index) \<Rightarrow> ([m], li(re_ref re := last_index))))"

definition matches_replace :: "pattern \<Rightarrow> string \<Rightarrow> last_indices \<Rightarrow> match_args list \<times> last_indices" where
  "matches_replace pat s li =
     (case pat of
        PStr p \<Rightarrow>
          (case find_index p s of None \<Rightarrow> ([], li) | Some i \<Rightarrow> ([string_match p s i], li))
      | PRe re \<Rightarrow> regexp_matches re s li)"

definition js_replace ::
  "string \<Rightarrow> pattern \<Rightarrow> (match_args \<Rightarrow> js_error + string) \<Rightarrow> last_indices \<Rightarrow>
   (js_error + (string \<times> bool)) \<times> last_indices"
where
  "js_replace s pat f li =
     (case matches_replace pat s li of
        (ms, li') \<Rightarrow>
          (case splice s 0 ms f of Inl e \<Rightarrow> (Inl e, li') | Inr t \<Rightarrow> (Inr (t, ms \<noteq> []), li')))"

definition matches_replaceAll ::
  "pattern \<Rightarrow> string \<Rightarrow> last_indices \<Rightarrow> (js_error + match_args list) \<times> last_indices"
where
  "matches_replaceAll pat s li =
     (case pat of
        PStr p \<Rightarrow> (Inr (map (string_match p s) (occurrences p s 0 0)), li)
      | PRe re \<Rightarrow>
          (if re_global re
           then (case regexp_matches re s li of (ms, li') \<Rightarrow> (Inr ms, li'))
           else (Inl (TypeError ''replaceAll must be called with a global RegExp''), li)))"

definition js_replaceAll ::
  "string \<Rightarrow> pattern \<Rightarrow> (match_args \<Rightarrow> js_error + string) \<Rightarrow> last_indices \<Rightarrow>
   (js_error + (string \<times> bool)) \<times> last_indices"
where
  "js_replaceAll s pat f li =
     (case matches_replaceAll pat s li of
        (Inl e, li') \<Rightarrow> (Inl e, li')
      | (Inr ms, li') \<Rightarrow>
          (case splice s 0 ms f of Inl e \<Rightarrow> (Inl e, li') | Inr t \<Rightarrow> (Inr (t, ms \<noteq> []), li')))"

text \<open>
  \<open>GetSubstitution\<close> for a string pattern: in a replacement given as a string,
  \<open>$$\<close>, \<open>$&\<close>, \<open>$`\<close> and \<open>$'\<close> are expanded; there are no captures, so
  every other \<open>$\<close> stays.
\<close>

fun get_substitution :: "string \<Rightarrow> string \<Rightarrow> nat \<Rightarrow> string \<Rightarrow> string" where
  "get_substitution m s pos [] = []"
| "get_substitution m s pos [c] = [c]"
| "get_substitution m s pos (c # d # rest) =
     (if c = CHR ''$'' \<and> d = CHR ''$'' then CHR ''$'' # get_substitution m s pos rest
      else if c = CHR ''$'' \<and> d = CHR ''&'' then m @ get_substitution m s pos rest
      else if c = CHR ''$'' \<and> d = CHR 0x60 then take pos s @ get_substitution m s pos rest
      else if c = CHR ''$'' \<and> d = CHR 0x27
        then drop (min (pos + length m) (length s)) s @ get_substitution m s pos rest
      else c # get_substitution m s pos (d # rest))"

text \<open>\<open>s.replaceAll(p, template)\<close> with two strings.\<close>

definition replaceAll_str :: "string \<Rightarrow> string \<Rightarrow> string \<Rightarrow> string" where
  "replaceAll_str s p template =
     (case splice s 0 (map (string_match p s) (occurrences p s 0 0))
             (\<lambda>m. Inr (get_substitution (m_text m) s (m_offset m) template)) of
        Inr t \<Rightarrow> t
      | Inl e \<Rightarrow> s)"

section \<open>Patches\<close>

text \<open>
  A replacement rule \<open>{match, replace, global}\<close> and a patch
  \<open>{find, replacements}\<close>; \<open>register_patches\<close> writes the registrar's name
  into the field \<open>_registrar_name\<close> of every patch it receives.  A \<open>find\<close> is a
  string, a regular expression, or an array of them; the array is an object, so it has an
  identity.
\<close>

datatype replace_value = RStr string | RFun "match_args \<Rightarrow> js_error + string"

record replacement =
  r_match :: pattern
  r_replace :: replace_value
  r_global :: bool

datatype ident = IStr string | IRe regexp

datatype find_value = FOne ident | FMany nat "ident list"

record patch =
  p_find :: find_value
  p_replacements :: "replacement list"
  p_registrar_name :: string

text \<open>The registrar object \<open>{data, functions}\<close>, with its identity.\<close>

datatype obj_ref = Made_by_patcher string | Made_by_buffer nat

record registrar_obj =
  reg_ref :: obj_ref
  reg_data :: "(string \<times> string) list"
  reg_functions :: "(string \<times> string) list"

record register_options =
  opt_name :: "string option"
  opt_data :: "(string \<times> string) list option"
  opt_functions :: "(string \<times> string) list option"

section \<open>Plain objects as tables\<close>

text \<open>
  The patcher keeps two tables in plain objects and reads them with \<open>table[key]\<close>:
  the listener table and \<open>Registrars\<close>.  A plain object inherits the members of
  \<open>Object.prototype\<close>, so such a read yields the object's own entry, or, for one of
  the names below, an inherited built-in (which is truthy and is neither an array nor a
  registrar), or \<open>undefined\<close>.
\<close>

definition Object_prototype_keys :: "string list" where
  "Object_prototype_keys =
     [''constructor'', ''__defineGetter__'', ''__defineSetter__'', ''hasOwnProperty'',
      ''__lookupGetter__'', ''__lookupSetter__'', ''isPrototypeOf'', ''propertyIsEnumerable'',
      ''toString'', ''valueOf'', ''__proto__'', ''toLocaleString'']"

datatype 'a property = Own 'a | Inherited | Absent

definition get_property :: "(string \<rightharpoonup> 'a) \<Rightarrow> string \<Rightarrow> 'a property" where
  "get_property obj key =
     (case obj key of
        Some v \<Rightarrow> Own v
      | None \<Rightarrow> if key \<in> set Object_prototype_keys then Inherited else Absent)"

section \<open>Events and log\<close>

text \<open>
  An event listener is a callback of the consumer: its identity, and whether it throws on
  the arguments it is called with.  What a callback does to the page is outside the
  patcher; the model records each call.  A callback is taken not to call back into the
  patcher while it runs.
\<close>

datatype event_args =
    Webpack_detected_args fn_obj "module_id list"
  | Module_registered_args module_id fn_obj
  | Module_patched_args module_id fn_obj fn_obj

record listener =
  l_ref :: nat
  l_run :: "event_args \<Rightarrow> js_error option"

text \<open>
  The listener table \<open>{webpack_detected: [], module_registered: [], module_patched: []}\<close>:
  nothing adds a key to it or deletes one, so it is a record of the three lists.
\<close>

record listener_table =
  on_webpack_detected :: "listener list"
  on_module_registered :: "listener list"
  on_module_patched :: "listener list"

definition own_listeners :: "listener_table \<Rightarrow> string \<rightharpoonup> listener list" where
  "own_listeners T event =
     (if event = ''webpack_detected'' then Some (on_webpack_detected T)
      else if event = ''module_registered'' then Some (on_module_registered T)
      else if event = ''module_patched'' then Some (on_module_patched T)
      else None)"

definition set_listeners :: "string \<Rightarrow> listener list \<Rightarrow> listener_table \<Rightarrow> listener_table" where
  "set_listeners event ls T =
     (if event = ''webpack_detected'' then T\<lparr>on_webpack_detected := ls\<rparr>
      else if event = ''module_registered'' then T\<lparr>on_module_registered := ls\<rparr>
      else if event = ''module_patched'' then T\<lparr>on_module_patched := ls\<rparr>
      else T)"

datatype log_entry =
    Warn_unknown_event string
  | Warn_replacement_skipped nat nat module_id
  | Warn_no_replacements module_id
  | Error_patching_failed js_error string
  | Error_event_listener string js_error
  | Error_on_detect js_error

text \<open>
  The logger's \<open>warn\<close> and \<open>error\<close> calls are kept in the state, in order; its
  \<open>debug\<close> and \<open>log\<close> calls carry no state and are left out.
\<close>

section \<open>The patcher\<close>

text \<open>
  An entry of the module factory collection is a factory proxy made by
  \<open>_create_factory_proxy\<close> (with its target) or a plain function.
\<close>

datatype slot = Proxy fn_obj | Plain fn_obj

text \<open>
  An entry of the host's module cache is a module object, or, since the cache can be
  written to through the wrapper's \<open>set\<close>, some falsy value.
\<close>

datatype cache_entry = Module_object nat | Falsy_value

text \<open>
  The fields of \<open>WebpackPatcher\<close>, then the two flags that \<open>hook_webpack\<close>
  keeps in its closure, then the parts of the page the patcher writes to:
  \<open>window.WebpackPatcher.Registrars\<close>, the property \<open>SYM_ORIGINAL_FACTORY\<close> of
  function objects (by function identity), the \<open>lastIndex\<close> of the regular
  expressions in the patches (by identity), the log, and the calls made to listeners.
  The option \<open>webpack_property_names\<close> only names the two hooked slots and the unused
  \<open>module_registration_count\<close> is never written; both are left out.
\<close>

record patcher =
  patches :: "patch list"
  patched_modules :: "module_id set"
  module_factories :: "(module_id \<rightharpoonup> slot) option"
  webpack_require :: "fn_obj option"
  webpack_cache :: "(module_id \<rightharpoonup> cache_entry) option"
  hooked :: bool
  cache_enabled :: bool
  use_eval :: bool
  on_detect :: "(fn_obj \<Rightarrow> module_id list \<Rightarrow> js_error option) option"
  filter_func :: "(fn_obj \<Rightarrow> string list \<Rightarrow> bool) option"
  factory_string_cache :: "module_id \<rightharpoonup> string"
  registrars :: "string \<rightharpoonup> registrar_obj"
  placeholder_id :: string
  event_listeners :: listener_table
  webpack_detected :: bool
  cache_detected :: bool
  window_Registrars :: "string \<rightharpoonup> registrar_obj"
  sym_original_factory :: "fn_id \<rightharpoonup> fn_obj"
  last_index :: last_indices
  logged :: "log_entry list"
  listener_calls :: "(nat \<times> string \<times> event_args) list"

text \<open>
  The host's two ways of compiling text: indirect \<open>eval\<close> of a source text, and
  \<open>new Function(body)()\<close>.  Either throws, or yields a new function object, of
  which the host gives the text.
\<close>

record js_host =
  eval_indirect :: "string \<Rightarrow> js_error + string"
  new_Function_call :: "string \<Rightarrow> js_error + string"

subsection \<open>Placeholders\<close>

definition placeholders_self :: "patcher \<Rightarrow> string" where
  "placeholders_self P = ''WEBPACKPATCHER_PLACEHOLDER_SELF_'' @ placeholder_id P"

definition placeholders_functions :: "patcher \<Rightarrow> string" where
  "placeholders_functions P = ''WEBPACKPATCHER_PLACEHOLDER_FUNCTIONS_'' @ placeholder_id P"

definition placeholders_data :: "patcher \<Rightarrow> string" where
  "placeholders_data P = ''WEBPACKPATCHER_PLACEHOLDER_DATA_'' @ placeholder_id P"

text \<open>The three expressions that replace the placeholders, for a registrar name.\<close>

definition registrar_expr :: "string \<Rightarrow> string" where
  "registrar_expr name = ''window.WebpackPatcher.Registrars['' @ [CHR 0x22] @ name @ [CHR 0x22] @ '']''"

definition placeholder_replacements :: "patcher \<Rightarrow> string \<Rightarrow> (string \<times> string) list" where
  "placeholder_replacements P name =
     [(placeholders_self P, registrar_expr name),
      (placeholders_functions P, registrar_expr name @ ''.functions''),
      (placeholders_data P, registrar_expr name @ ''.data'')]"

definition replace_placeholders :: "patcher \<Rightarrow> string \<Rightarrow> string \<Rightarrow> string" where
  "replace_placeholders P name code =
     foldl (\<lambda>patched_code (placeholder, replacement).
              replaceAll_str patched_code placeholder replacement)
       code (placeholder_replacements P name)"

subsection \<open>\<open>_apply_patch\<close>\<close>

text \<open>
  The callback handed to \<open>replace\<close>/\<open>replaceAll\<close>: it notes that a replacement
  occurred and returns the rule's string, or calls the rule's function.
\<close>

definition replacer :: "replace_value \<Rightarrow> match_args \<Rightarrow> js_error + string" where
  "replacer rv a = (case rv of RFun f \<Rightarrow> f a | RStr s \<Rightarrow> Inr s)"

definition apply_replacement ::
  "replacement \<Rightarrow> string \<Rightarrow> last_indices \<Rightarrow> (js_error + (string \<times> bool)) \<times> last_indices"
where
  "apply_replacement r patched_code li =
     (if r_global r \<or> (case r_match r of PRe re \<Rightarrow> re_global re | PStr p \<Rightarrow> False)
      then js_replaceAll patched_code (r_match r) (replacer (r_replace r)) li
      else js_replace patched_code (r_match r) (replacer (r_replace r)) li)"

text \<open>
  The loop over the rules.  It carries the index \<open>i\<close>, the text edited so far, the
  number of rules that replaced something, the warnings, and the table of
  \<open>lastIndex\<close> values.  A throw leaves the loop with the text as it was before the
  throwing rule.
\<close>

fun replacement_loop ::
  "replacement list \<Rightarrow> nat \<Rightarrow> nat \<Rightarrow> module_id \<Rightarrow> string \<Rightarrow> nat \<Rightarrow> log_entry list \<Rightarrow>
   last_indices \<Rightarrow>
   ((js_error \<times> string \<times> log_entry list) + (string \<times> nat \<times> log_entry list)) \<times> last_indices"
where
  "replacement_loop [] i n module_id patched_code cnt lg li = (Inr (patched_code, cnt, lg), li)"
| "replacement_loop (r # rs) i n module_id patched_code cnt lg li =
     (case apply_replacement r patched_code li of
        (Inl e, li') \<Rightarrow> (Inl (e, patched_code, lg), li')
      | (Inr (code', occurred), li') \<Rightarrow>
          (if occurred
           then replacement_loop rs (Suc i) n module_id code' (Suc cnt) lg li'
           else replacement_loop rs (Suc i) n module_id code' cnt
                  (lg @ [Warn_replacement_skipped (Suc i) n module_id]) li'))"

record patch_result =
  factory :: fn_obj
  factory_str :: string

definition patched_source :: "module_id \<Rightarrow> string \<Rightarrow> string" where
  "patched_source module_id patched_code =
     ''// Webpack Module '' @ module_id @ '' - Patched by WebpackPatcher'' @ [CHR 0x0A] @
     ''0,'' @ patched_code @ [CHR 0x0A] @ ''//# sourceURL=WebpackModule'' @ module_id"

definition compile ::
  "js_host \<Rightarrow> patcher \<Rightarrow> fn_id \<Rightarrow> module_id \<Rightarrow> string \<Rightarrow> js_error + fn_obj"
where
  "compile h P new_ref module_id patched_code =
     (case (if use_eval P then eval_indirect h (patched_source module_id patched_code)
            else new_Function_call h (''return ('' @ patched_code @ '')'')) of
        Inl e \<Rightarrow> Inl e
      | Inr src \<Rightarrow> Inr \<lparr>fn_ref = new_ref, fn_src = src\<rparr>)"

text \<open>
  \<open>_apply_patch\<close>.  Its first two arguments are the host and the patcher (for the
  placeholders, \<open>use_eval\<close> and the \<open>lastIndex\<close> values), the third is the
  identity of the function object that compiling creates.  It returns the result, what it
  logged, and the \<open>lastIndex\<close> values it leaves.
\<close>

definition apply_patch ::
  "js_host \<Rightarrow> patcher \<Rightarrow> fn_id \<Rightarrow> fn_obj \<Rightarrow> string \<Rightarrow> replacement list \<Rightarrow> module_id \<Rightarrow>
   string \<Rightarrow> patch_result \<times> log_entry list \<times> last_indices"
where
  "apply_patch h P new_ref fac fac_str matches_and_replacements module_id registrar_name =
     (case replacement_loop matches_and_replacements 0 (length matches_and_replacements)
             module_id fac_str 0 [] (last_index P) of
        (Inl (e, patched_code, lg), li) \<Rightarrow>
          (\<lparr>factory = fac, factory_str = fac_str\<rparr>,
           lg @ [Error_patching_failed e patched_code], li)
      | (Inr (edited, total_replacements, lg), li) \<Rightarrow>
          (if total_replacements = 0
           then (\<lparr>factory = fac, factory_str = fac_str\<rparr>,
                 lg @ [Warn_no_replacements module_id], li)
           else
             (let patched_code = replace_placeholders P registrar_name edited
              in case compile h P new_ref module_id patched_code of
                   Inl e \<Rightarrow>
                     (\<lparr>factory = fac, factory_str = fac_str\<rparr>,
                      lg @ [Error_patching_failed e patched_code], li)
                 | Inr patched_factory \<Rightarrow>
                     (\<lparr>factory = patched_factory, factory_str = patched_code\<rparr>, lg, li))))"

subsection \<open>Construction and hooking\<close>

record patcher_options =
  enable_cache :: "bool option"
  o_use_eval :: "bool option"
  o_on_detect :: "(fn_obj \<Rightarrow> module_id list \<Rightarrow> js_error option) option"
  o_filter_func :: "(fn_obj \<Rightarrow> string list \<Rightarrow> bool) option"

text \<open>
  The constructor.  The placeholder id comes from \<open>Math.random\<close>, so it is an
  argument.
\<close>

definition new_WebpackPatcher :: "patcher_options \<Rightarrow> string \<Rightarrow> patcher" where
  "new_WebpackPatcher options random_id =
     \<lparr>patches = [],
      patched_modules = {},
      module_factories = None,
      webpack_require = None,
      webpack_cache = None,
      hooked = False,
      cache_enabled = (case enable_cache options of Some b \<Rightarrow> b | None \<Rightarrow> False),
      use_eval = (case o_use_eval options of Some b \<Rightarrow> b | None \<Rightarrow> True),
      on_detect = o_on_detect options,
      filter_func = o_filter_func options,
      factory_string_cache = Map.empty,
      registrars = Map.empty,
      placeholder_id = random_id,
      event_listeners =
        \<lparr>on_webpack_detected = [], on_module_registered = [], on_module_patched = []\<rparr>,
      webpack_detected = False,
      cache_detected = False,
      window_Registrars = Map.empty,
      sym_original_factory = Map.empty,
      last_index = (\<lambda>re. 0),
      logged = [],
      listener_calls = []\<rparr>"

definition hook_webpack :: "patcher \<Rightarrow> patcher" where
  "hook_webpack P =
     (if hooked P then P
      else P\<lparr>webpack_detected := False, cache_detected := False, hooked := True\<rparr>)"

definition initialize :: "patcher_options \<Rightarrow> string \<Rightarrow> patcher" where
  "initialize options random_id = hook_webpack (new_WebpackPatcher options random_id)"

subsection \<open>Event listeners\<close>

text \<open>
  For an inherited name the guard \<open>!this.event_listeners[event]\<close> does not hold, and
  the built-in that was read has no \<open>push\<close>, no \<open>indexOf\<close>, and is not
  iterable: a \<open>TypeError\<close>.
\<close>

definition add_event_listener :: "string \<Rightarrow> listener \<Rightarrow> patcher \<Rightarrow> js_error + patcher" where
  "add_event_listener event callback P =
     (case get_property (own_listeners (event_listeners P)) event of
        Absent \<Rightarrow> Inr (P\<lparr>logged := logged P @ [Warn_unknown_event event]\<rparr>)
      | Inherited \<Rightarrow> Inl (TypeError ''this.event_listeners[event].push is not a function'')
      | Own ls \<Rightarrow>
          Inr (P\<lparr>event_listeners := set_listeners event (ls @ [callback]) (event_listeners P)\<rparr>))"

text \<open>\<open>indexOf\<close> compares by identity; \<open>splice(index, 1)\<close> removes that one entry.\<close>

fun remove_first :: "nat \<Rightarrow> listener list \<Rightarrow> listener list" where
  "remove_first r [] = []"
| "remove_first r (l # ls) = (if l_ref l = r then ls else l # remove_first r ls)"

definition remove_event_listener :: "string \<Rightarrow> listener \<Rightarrow> patcher \<Rightarrow> js_error + patcher" where
  "remove_event_listener event callback P =
     (case get_property (own_listeners (event_listeners P)) event of
        Absent \<Rightarrow> Inr P
      | Inherited \<Rightarrow> Inl (TypeError ''this.event_listeners[event].indexOf is not a function'')
      | Own ls \<Rightarrow>
          Inr (P\<lparr>event_listeners :=
                  set_listeners event (remove_first (l_ref callback) ls) (event_listeners P)\<rparr>))"

text \<open>Calling one listener inside \<open>try\<close>/\<open>catch\<close>: the call is recorded, a throw is logged.\<close>

definition call_listener :: "string \<Rightarrow> event_args \<Rightarrow> listener \<Rightarrow> patcher \<Rightarrow> patcher" where
  "call_listener event args l P =
     (let P' = P\<lparr>listener_calls := listener_calls P @ [(l_ref l, event, args)]\<rparr>
      in case l_run l args of
           None \<Rightarrow> P'
         | Some e \<Rightarrow> P'\<lparr>logged := logged P' @ [Error_event_listener event e]\<rparr>)"

fun call_listeners :: "string \<Rightarrow> event_args \<Rightarrow> listener list \<Rightarrow> patcher \<Rightarrow> patcher" where
  "call_listeners event args [] P = P"
| "call_listeners event args (l # ls) P =
     call_listeners event args ls (call_listener event args l P)"

definition emit_event :: "string \<Rightarrow> event_args \<Rightarrow> patcher \<Rightarrow> js_error + patcher" where
  "emit_event event args P =
     (case get_property (own_listeners (event_listeners P)) event of
        Absent \<Rightarrow> Inr P
      | Inherited \<Rightarrow> Inl (TypeError ''this.event_listeners[event] is not iterable'')
      | Own ls \<Rightarrow> Inr (call_listeners event args ls P))"

subsection \<open>\<open>register_patches\<close>\<close>

definition matches_identifier :: "string \<Rightarrow> ident \<Rightarrow> last_indices \<Rightarrow> bool \<times> last_indices" where
  "matches_identifier v i li =
     (case i of IStr s \<Rightarrow> (str_includes v s, li) | IRe re \<Rightarrow> regexp_test re v li)"

text \<open>
  \<open>===\<close> on two \<open>find\<close> values: strings are equal by value, a regular expression or
  an array only to itself.
\<close>

fun strict_equals :: "find_value \<Rightarrow> find_value \<Rightarrow> bool" where
  "strict_equals (FOne (IStr a)) (FOne (IStr b)) = (a = b)"
| "strict_equals (FOne (IRe a)) (FOne (IRe b)) = (re_ref a = re_ref b)"
| "strict_equals (FMany a xs) (FMany b ys) = (a = b)"
| "strict_equals x y = False"

text \<open>
  The inner loop over \<open>this.patches\<close>: at the first existing patch whose \<open>find\<close>
  is the new patch's, the new replacements are pushed onto it.  \<open>None\<close> is
  \<open>found_existing = false\<close>.
\<close>

fun merge_existing :: "patch \<Rightarrow> patch list \<Rightarrow> patch list option" where
  "merge_existing p [] = None"
| "merge_existing p (existing_patch # rest) =
     (if strict_equals (p_find existing_patch) (p_find p)
      then Some (existing_patch\<lparr>p_replacements :=
                   p_replacements existing_patch @ p_replacements p\<rparr> # rest)
      else map_option ((#) existing_patch) (merge_existing p rest))"

text \<open>
  The outer loop over the patches handed in.  Each is a fresh object of the consumer: it is
  not yet in \<open>this.patches\<close> and shares no array with a registered patch.
\<close>

fun register_loop :: "string \<Rightarrow> patch list \<Rightarrow> patch list \<Rightarrow> patch list" where
  "register_loop registrar_name [] ps = ps"
| "register_loop registrar_name (p # rest) ps =
     (let p' = p\<lparr>p_registrar_name := registrar_name\<rparr>
      in register_loop registrar_name rest
           (case merge_existing p' ps of Some ps' \<Rightarrow> ps' | None \<Rightarrow> ps @ [p']))"

definition new_registrar_obj :: "obj_ref \<Rightarrow> register_options \<Rightarrow> registrar_obj" where
  "new_registrar_obj r options =
     \<lparr>reg_ref = r,
      reg_data = (case opt_data options of Some d \<Rightarrow> d | None \<Rightarrow> []),
      reg_functions = (case opt_functions options of Some f \<Rightarrow> f | None \<Rightarrow> [])\<rparr>"

text \<open>
  \<open>register_patches\<close>.  What it returns is \<open>Registrars[registrar_name]\<close> as
  read at the end.
\<close>

definition register_patches ::
  "register_options \<Rightarrow> patch list \<Rightarrow> registrar_obj option \<Rightarrow> patcher \<Rightarrow>
   js_error + (registrar_obj property \<times> patcher)"
where
  "register_patches options new_patches existing_registrar P =
     (case opt_name options of
        None \<Rightarrow> Inl (Error ''Registrar name is required'')
      | Some registrar_name \<Rightarrow>
          if registrar_name = [] then Inl (Error ''Registrar name is required'')
          else
            (let P1 = (case get_property (window_Registrars P) registrar_name of
                         Own r \<Rightarrow> P
                       | Inherited \<Rightarrow> P
                       | Absent \<Rightarrow>
                           (let registrar_obj =
                                  (case existing_registrar of
                                     Some r \<Rightarrow> r
                                   | None \<Rightarrow>
                                       new_registrar_obj (Made_by_patcher registrar_name) options)
                            in P\<lparr>window_Registrars :=
                                   (window_Registrars P)(registrar_name \<mapsto> registrar_obj),
                                 registrars := (registrars P)(registrar_name \<mapsto> registrar_obj)\<rparr>));
                 P2 = P1\<lparr>patches := register_loop registrar_name new_patches (patches P1)\<rparr>;
                 P3 = (if hooked P2 then P2 else hook_webpack P2)
             in Inr (get_property (window_Registrars P3) registrar_name, P3)))"

subsection \<open>Lazy patching of a module factory\<close>

definition get_factory_string :: "module_id \<Rightarrow> fn_obj \<Rightarrow> patcher \<Rightarrow> string \<times> patcher" where
  "get_factory_string module_id fac P =
     (if cache_enabled P
      then (case factory_string_cache P module_id of
              Some s \<Rightarrow> (s, P)
            | None \<Rightarrow>
                (fn_src fac,
                 P\<lparr>factory_string_cache := (factory_string_cache P)(module_id \<mapsto> fn_src fac)\<rparr>))
      else (fn_src fac, P))"

text \<open>\<open>finds.some(...)\<close> stops at the first identifier that matches.\<close>

fun some_matches :: "string \<Rightarrow> ident list \<Rightarrow> last_indices \<Rightarrow> bool \<times> last_indices" where
  "some_matches v [] li = (False, li)"
| "some_matches v (i # rest) li =
     (case matches_identifier v i li of
        (True, li') \<Rightarrow> (True, li')
      | (False, li') \<Rightarrow> some_matches v rest li')"

definition check_pattern_match :: "string \<Rightarrow> patch \<Rightarrow> last_indices \<Rightarrow> bool \<times> last_indices" where
  "check_pattern_match fac_str p li =
     (let finds = (case p_find p of FMany r xs \<Rightarrow> xs | FOne i \<Rightarrow> [i])
      in some_matches fac_str finds li)"

text \<open>
  The loop of \<open>_get_or_patch_factory\<close> over \<open>this.patches\<close>, carrying the index
  \<open>i\<close>, \<open>current_factory\<close>, \<open>current_factory_str\<close>, \<open>any_patches_applied\<close>
  and what was logged; the \<open>lastIndex\<close> values are carried in the patcher.
  \<open>!==\<close> on functions is identity.
\<close>

fun patch_loop ::
  "js_host \<Rightarrow> patcher \<Rightarrow> module_id \<Rightarrow> patch list \<Rightarrow> nat \<Rightarrow> fn_obj \<Rightarrow> string \<Rightarrow> bool \<Rightarrow>
   log_entry list \<Rightarrow> fn_obj \<times> string \<times> bool \<times> log_entry list \<times> last_indices"
where
  "patch_loop h P module_id [] i current_factory current_factory_str any_applied lg =
     (current_factory, current_factory_str, any_applied, lg, last_index P)"
| "patch_loop h P module_id (p # ps) i current_factory current_factory_str any_applied lg =
     (case check_pattern_match current_factory_str p (last_index P) of
        (False, li) \<Rightarrow>
          patch_loop h (P\<lparr>last_index := li\<rparr>) module_id ps (Suc i) current_factory
            current_factory_str any_applied lg
      | (True, li) \<Rightarrow>
          (case apply_patch h (P\<lparr>last_index := li\<rparr>) (Compiled module_id i) current_factory
                  current_factory_str (p_replacements p) module_id (p_registrar_name p) of
             (res, lg', li') \<Rightarrow>
               (if fn_ref (factory res) \<noteq> fn_ref current_factory
                then patch_loop h (P\<lparr>last_index := li'\<rparr>) module_id ps (Suc i) (factory res)
                       (factory_str res) True (lg @ lg')
                else patch_loop h (P\<lparr>last_index := li'\<rparr>) module_id ps (Suc i)
                       current_factory current_factory_str any_applied (lg @ lg'))))"

text \<open>
  \<open>_get_or_patch_factory\<close>.  Writing the patched factory into a collection that is
  still \<open>null\<close> would throw; the state reached before a throw is not returned.
\<close>

definition get_or_patch_factory ::
  "js_host \<Rightarrow> module_id \<Rightarrow> fn_obj \<Rightarrow> patcher \<Rightarrow> js_error + (fn_obj \<times> patcher)"
where
  "get_or_patch_factory h module_id fac P =
     (if sym_original_factory P (fn_ref fac) \<noteq> None then Inr (fac, P)
      else if module_id \<in> patched_modules P then Inr (fac, P)
      else
        (let (fac_str, P1) = get_factory_string module_id fac P;
             (current_factory, current_factory_str, any_patches_applied, lg, li) =
               patch_loop h P1 module_id (patches P1) 0 fac fac_str False [];
             P2 = P1\<lparr>logged := logged P1 @ lg, last_index := li\<rparr>
         in if any_patches_applied
            then (case module_factories P2 of
                    None \<Rightarrow> Inl (TypeError ''Cannot set properties of null'')
                  | Some mf \<Rightarrow>
                      (let P3 = P2\<lparr>sym_original_factory :=
                                     (sym_original_factory P2)(fn_ref current_factory \<mapsto> fac),
                                   module_factories :=
                                     Some (mf(module_id \<mapsto> Plain current_factory))\<rparr>
                       in case emit_event ''module_patched''
                                 (Module_patched_args module_id current_factory fac) P3 of
                            Inl e \<Rightarrow> Inl e
                          | Inr P4 \<Rightarrow>
                              Inr (current_factory,
                                   P4\<lparr>patched_modules :=
                                        insert module_id (patched_modules P4)\<rparr>)))
            else Inr (current_factory,
                      P2\<lparr>patched_modules := insert module_id (patched_modules P2)\<rparr>)))"

text \<open>
  The \<open>apply\<close> trap of the proxy that \<open>_create_factory_proxy module_id fac\<close>
  returns: the function it yields is the one that is then run with the caller's arguments.
\<close>

definition factory_proxy_apply ::
  "js_host \<Rightarrow> module_id \<Rightarrow> fn_obj \<Rightarrow> patcher \<Rightarrow> js_error + (fn_obj \<times> patcher)"
where
  "factory_proxy_apply h module_id factory_target P =
     get_or_patch_factory h module_id factory_target P"

text \<open>
  The \<open>toString\<close> that the \<open>get\<close> trap of a factory proxy hands out is the one of
  the original factory, if the target carries \<open>SYM_ORIGINAL_FACTORY\<close>.
\<close>

definition handle_factory_get_toString :: "fn_obj \<Rightarrow> patcher \<Rightarrow> string" where
  "handle_factory_get_toString factory_target P =
     (case sym_original_factory P (fn_ref factory_target) of
        Some actual_factory \<Rightarrow> fn_src actual_factory
      | None \<Rightarrow> fn_src factory_target)"

subsection \<open>Detection\<close>

text \<open>
  The setter installed on \<open>Function.prototype\<close> for the cache slot, called with the
  function object written to (\<open>this\<close>), the lines of the call stack, and the value.
\<close>

definition cache_setter ::
  "fn_obj \<Rightarrow> string list \<Rightarrow> (module_id \<rightharpoonup> cache_entry) \<Rightarrow> patcher \<Rightarrow> patcher"
where
  "cache_setter this stack_lines cache_obj P =
     (if cache_detected P then P
      else if \<not> str_includes (fn_src this) ''exports:{}'' then P
      else if (case filter_func P of Some f \<Rightarrow> \<not> f this stack_lines | None \<Rightarrow> False) then P
      else P\<lparr>cache_detected := True, webpack_cache := Some cache_obj\<rparr>)"

definition call_on_detect :: "fn_obj \<Rightarrow> module_id list \<Rightarrow> patcher \<Rightarrow> patcher" where
  "call_on_detect this ids P =
     (case on_detect P of
        None \<Rightarrow> P
      | Some f \<Rightarrow>
          (case f this ids of
             None \<Rightarrow> P
           | Some e \<Rightarrow> P\<lparr>logged := logged P @ [Error_on_detect e]\<rparr>))"

text \<open>
  The setter for the modules slot.  The value is the host's collection of factories, given
  with its keys in enumeration order; every factory in it is wrapped in a proxy.
\<close>

definition modules_setter ::
  "fn_obj \<Rightarrow> string list \<Rightarrow> (module_id \<times> fn_obj) list \<Rightarrow> patcher \<Rightarrow> js_error + patcher"
where
  "modules_setter this stack_lines factories P =
     (if webpack_detected P then Inr P
      else if \<not> str_includes (fn_src this) ''exports:{}'' then Inr P
      else if (case filter_func P of Some f \<Rightarrow> \<not> f this stack_lines | None \<Rightarrow> False)
        then Inr P
      else
        (let P1 = P\<lparr>webpack_detected := True, webpack_require := Some this\<rparr>
         in case emit_event ''webpack_detected''
                   (Webpack_detected_args this (map fst factories)) P1 of
              Inl e \<Rightarrow> Inl e
            | Inr P2 \<Rightarrow>
                (let P3 = call_on_detect this (map fst factories) P2
                 in Inr (P3\<lparr>module_factories :=
                           Some (map_of (map (\<lambda>(module_id, fac). (module_id, Proxy fac))
                                           factories))\<rparr>))))"

text \<open>The \<open>set\<close> and \<open>get\<close> traps of the proxy around the collection.\<close>

definition factories_set :: "module_id \<Rightarrow> fn_obj \<Rightarrow> patcher \<Rightarrow> js_error + patcher" where
  "factories_set module_id fac P =
     (case emit_event ''module_registered'' (Module_registered_args module_id fac) P of
        Inl e \<Rightarrow> Inl e
      | Inr P1 \<Rightarrow>
          Inr (P1\<lparr>module_factories :=
                  map_option (\<lambda>mf. mf(module_id \<mapsto> Proxy fac)) (module_factories P1)\<rparr>))"

definition factories_get :: "module_id \<Rightarrow> patcher \<Rightarrow> fn_obj option" where
  "factories_get module_id P =
     (case module_factories P of
        None \<Rightarrow> None
      | Some mf \<Rightarrow>
          (case mf module_id of
             None \<Rightarrow> None
           | Some (Proxy factory_target) \<Rightarrow> Some factory_target
           | Some (Plain f) \<Rightarrow> Some f))"

section \<open>The buffering registrar\<close>

record buffered_patches =
  b_options :: register_options
  b_patches :: "patch list"
  b_registrar :: registrar_obj

record patch_registrar =
  pr_patcher :: "patcher option"
  patch_buffer :: "buffered_patches list"
  event_listener_buffer :: "(string \<times> listener) list"
  is_flushing :: bool

definition new_WebpackPatchRegistrar :: "patcher option \<Rightarrow> patch_registrar" where
  "new_WebpackPatchRegistrar p =
     \<lparr>pr_patcher = p, patch_buffer = [], event_listener_buffer = [], is_flushing = False\<rparr>"

text \<open>
  Flushing the patch buffer calls \<open>register_patches\<close> for each entry; a throw leaves the
  loop with the patcher as the entries before it made it.
\<close>

fun flush_patch_buffer :: "buffered_patches list \<Rightarrow> patcher \<Rightarrow> patcher \<times> js_error option" where
  "flush_patch_buffer [] P = (P, None)"
| "flush_patch_buffer (b # bs) P =
     (case register_patches (b_options b) (b_patches b) (Some (b_registrar b)) P of
        Inl e \<Rightarrow> (P, Some e)
      | Inr (r, P') \<Rightarrow> flush_patch_buffer bs P')"

fun flush_event_listener_buffer ::
  "(string \<times> listener) list \<Rightarrow> patcher \<Rightarrow> patcher \<times> js_error option"
where
  "flush_event_listener_buffer [] P = (P, None)"
| "flush_event_listener_buffer ((event, callback) # bs) P =
     (case add_event_listener event callback P of
        Inl e \<Rightarrow> (P, Some e)
      | Inr P' \<Rightarrow> flush_event_listener_buffer bs P')"

definition flush_buffers :: "patch_registrar \<Rightarrow> patch_registrar \<times> js_error option" where
  "flush_buffers R =
     (if is_flushing R then (R, None)
      else
        (case pr_patcher R of
           None \<Rightarrow>
             (if patch_buffer R = [] \<and> event_listener_buffer R = []
              then (R, None)
              else (R\<lparr>is_flushing := True\<rparr>,
                    Some (TypeError ''Cannot read properties of null'')))
         | Some P \<Rightarrow>
             (case flush_patch_buffer (patch_buffer R) P of
                (P1, Some e) \<Rightarrow> (R\<lparr>is_flushing := True, pr_patcher := Some P1\<rparr>, Some e)
              | (P1, None) \<Rightarrow>
                  (case flush_event_listener_buffer (event_listener_buffer R) P1 of
                     (P2, Some e) \<Rightarrow>
                       (R\<lparr>is_flushing := True, pr_patcher := Some P2, patch_buffer := []\<rparr>,
                        Some e)
                   | (P2, None) \<Rightarrow>
                       (R\<lparr>is_flushing := False, pr_patcher := Some P2, patch_buffer := [],
                          event_listener_buffer := []\<rparr>, None)))))"

text \<open>
  \<open>set_patcher\<close>: a second patcher is refused (the warning goes to the logger of the
  refused patcher).
\<close>

definition set_patcher :: "patcher \<Rightarrow> patch_registrar \<Rightarrow> patch_registrar \<times> js_error option" where
  "set_patcher P R =
     (case pr_patcher R of
        Some Q \<Rightarrow> (R, None)
      | None \<Rightarrow> flush_buffers (R\<lparr>pr_patcher := Some P\<rparr>))"

text \<open>The public \<open>register\<close>, \<open>addEventListener\<close> and \<open>removeEventListener\<close>.\<close>

definition registrar_register_patches ::
  "register_options \<Rightarrow> patch list \<Rightarrow> patch_registrar \<Rightarrow>
   js_error + (registrar_obj property \<times> patch_registrar)"
where
  "registrar_register_patches options new_patches R =
     (case pr_patcher R of
        Some P \<Rightarrow>
          (case register_patches options new_patches None P of
             Inl e \<Rightarrow> Inl e
           | Inr (r, P') \<Rightarrow> Inr (r, R\<lparr>pr_patcher := Some P'\<rparr>))
      | None \<Rightarrow>
          (let registrar_obj =
                 new_registrar_obj (Made_by_buffer (length (patch_buffer R))) options
           in Inr (Own registrar_obj,
                   R\<lparr>patch_buffer := patch_buffer R @
                        [\<lparr>b_options = options, b_patches = new_patches,
                          b_registrar = registrar_obj\<rparr>]\<rparr>)))"

definition registrar_add_event_listener ::
  "string \<Rightarrow> listener \<Rightarrow> patch_registrar \<Rightarrow> js_error + patch_registrar"
where
  "registrar_add_event_listener event callback R =
     (case pr_patcher R of
        Some P \<Rightarrow>
          (case add_event_listener event callback P of
             Inl e \<Rightarrow> Inl e
           | Inr P' \<Rightarrow> Inr (R\<lparr>pr_patcher := Some P'\<rparr>))
      | None \<Rightarrow>
          Inr (R\<lparr>event_listener_buffer := event_listener_buffer R @ [(event, callback)]\<rparr>))"

definition registrar_remove_event_listener ::
  "string \<Rightarrow> listener \<Rightarrow> patch_registrar \<Rightarrow> js_error + patch_registrar"
where
  "registrar_remove_event_listener event callback R =
     (case pr_patcher R of
        Some P \<Rightarrow>
          (case remove_event_listener event callback P of
             Inl e \<Rightarrow> Inl e
           | Inr P' \<Rightarrow> Inr (R\<lparr>pr_patcher := Some P'\<rparr>))
      | None \<Rightarrow> Inr R)"

subsection \<open>The read-only accessors\<close>

text \<open>
  What an accessor of \<open>window.WebpackPatcher\<close> can return: \<open>null\<close>, a function, the
  collection of factories, or the object \<open>_Webpack_cache\<close> of the registrar, which wraps
  the cache with \<open>get\<close>, \<open>getAll\<close>, \<open>delete\<close> and \<open>set\<close>.  The
  wrapper's \<open>getAll\<close> returns \<open>null\<close> or a copy of the cache, its \<open>get\<close>
  returns \<open>null\<close>, a module object, or, the cache being a plain object, a member that
  every object inherits.
\<close>

datatype js_value =
    Null
  | Function_value fn_obj
  | Factories_value "module_id \<rightharpoonup> slot"
  | Webpack_cache_wrapper
  | Cache_value "module_id \<rightharpoonup> cache_entry"
  | Module_value nat
  | Inherited_member

definition webpackRequire :: "patch_registrar \<Rightarrow> js_value" where
  "webpackRequire R =
     (case pr_patcher R of
        None \<Rightarrow> Null
      | Some P \<Rightarrow> (case webpack_require P of None \<Rightarrow> Null | Some f \<Rightarrow> Function_value f))"

definition moduleFactories :: "patch_registrar \<Rightarrow> js_value" where
  "moduleFactories R =
     (case pr_patcher R of
        None \<Rightarrow> Null
      | Some P \<Rightarrow> (case module_factories P of None \<Rightarrow> Null | Some mf \<Rightarrow> Factories_value mf))"

definition moduleCache :: "patch_registrar \<Rightarrow> js_value" where
  "moduleCache R = Webpack_cache_wrapper"

definition Webpack_cache_getAll :: "patch_registrar \<Rightarrow> js_value" where
  "Webpack_cache_getAll R =
     (case pr_patcher R of
        None \<Rightarrow> Null
      | Some P \<Rightarrow> (case webpack_cache P of None \<Rightarrow> Null | Some c \<Rightarrow> Cache_value c))"

text \<open>\<open>get: (module_id) => this.patcher?.webpack_cache?.[module_id] || null\<close>\<close>

definition Webpack_cache_get :: "module_id \<Rightarrow> patch_registrar \<Rightarrow> js_value" where
  "Webpack_cache_get module_id R =
     (case pr_patcher R of
        None \<Rightarrow> Null
      | Some P \<Rightarrow>
          (case webpack_cache P of
             None \<Rightarrow> Null
           | Some c \<Rightarrow>
               (case get_property c module_id of
                  Own (Module_object m) \<Rightarrow> Module_value m
                | Own Falsy_value \<Rightarrow> Null
                | Inherited \<Rightarrow> Inherited_member
                | Absent \<Rightarrow> Null)))"

text \<open>
  The cache object is the host's: its runtime adds entries to it, and the wrapper's
  \<open>delete\<close> and \<open>set\<close> change entries of it once it is detected.  Such a change
  is given by the entries that the object has afterwards; before the cache is detected the
  patcher has no reference to the object.  (A write to the key \<open>__proto__\<close>, which
  would change what the object inherits, is not covered.)
\<close>

definition cache_entries_changed :: "(module_id \<rightharpoonup> cache_entry) \<Rightarrow> patcher \<Rightarrow> patcher" where
  "cache_entries_changed entries P =
     (case webpack_cache P of
        None \<Rightarrow> P
      | Some c \<Rightarrow> P\<lparr>webpack_cache := Some entries\<rparr>)"

definition is_webpack_detected :: "patch_registrar \<Rightarrow> bool" where
  "is_webpack_detected R =
     (case pr_patcher R of None \<Rightarrow> False | Some P \<Rightarrow> webpack_require P \<noteq> None)"

text \<open>
  \<open>main\<close> for a configured host name: the registrar is made without a patcher and
  published in \<open>window.WebpackPatcher\<close>, then the patcher is made and set.  All of
  this is one synchronous block; the logger's calls of the console in it are taken not to
  call the published operations.
\<close>

definition main :: "patcher_options \<Rightarrow> string \<Rightarrow> patch_registrar \<times> js_error option" where
  "main configuration random_id =
     set_patcher (initialize configuration random_id) (new_WebpackPatchRegistrar None)"

section \<open>Example values\<close>

text \<open>
  A patcher as \<open>initialize\<close> makes it with no options, a host whose \<open>eval\<close> yields a
  new function object for every text, and a host that forbids dynamic code (a strict
  content security policy).
\<close>

definition example_patcher :: patcher where
  "example_patcher =
     initialize \<lparr>enable_cache = None, o_use_eval = None, o_on_detect = None,
                 o_filter_func = None\<rparr> ''k3x9q2ab''"

definition example_host :: js_host where
  "example_host =
     \<lparr>eval_indirect = (\<lambda>src. Inr src), new_Function_call = (\<lambda>body. Inr body)\<rparr>"

definition strict_host :: js_host where
  "strict_host =
     \<lparr>eval_indirect = (\<lambda>src. Inl (Thrown ''EvalError'')),
      new_Function_call = (\<lambda>body. Inl (Thrown ''EvalError''))\<rparr>"

definition example_factory :: fn_obj where
  "example_factory = \<lparr>fn_ref = Host_function 1, fn_src = ''function a(){return foo(1)+bar(2)}''\<rparr>"

definition rule_foo_baz :: replacement where
  "rule_foo_baz = \<lparr>r_match = PStr ''foo(1)'', r_replace = RStr ''baz(1)'', r_global = False\<rparr>"

definition rule_baz_qux :: replacement where
  "rule_baz_qux = \<lparr>r_match = PStr ''baz(1)'', r_replace = RStr ''qux(1)'', r_global = False\<rparr>"

definition rule_absent :: replacement where
  "rule_absent = \<lparr>r_match = PStr ''nowhere'', r_replace = RStr ''x'', r_global = True\<rparr>"

definition patch_foo :: patch where
  "patch_foo = \<lparr>p_find = FOne (IStr ''foo(1)''), p_replacements = [rule_foo_baz],
                 p_registrar_name = ''Demo''\<rparr>"

definition patch_baz :: patch where
  "patch_baz = \<lparr>p_find = FOne (IStr ''baz(1)''), p_replacements = [rule_baz_qux],
                 p_registrar_name = ''Demo''\<rparr>"

text \<open>
  A page: the function that the host's runtime writes its factory collection to, the
  patcher after the consumer \<open>Demo\<close> registered one patch, and the patcher after the
  runtime was then detected with one module.
\<close>

definition example_require :: fn_obj where
  "example_require =
     \<lparr>fn_ref = Host_function 0,
      fn_src = ''function r(e){var t=c[e];if(t)return t.exports;var n=c[e]={id:e,exports:{}};return n.exports}''\<rparr>"

definition example_cache :: "module_id \<rightharpoonup> cache_entry" where
  "example_cache = [''7'' \<mapsto> Module_object 7]"

definition demo_options :: register_options where
  "demo_options = \<lparr>opt_name = Some ''Demo'', opt_data = None, opt_functions = None\<rparr>"

definition registered_patcher :: patcher where
  "registered_patcher =
     (case register_patches demo_options [patch_foo] None example_patcher of
        Inr (r, P) \<Rightarrow> P
      | Inl e \<Rightarrow> example_patcher)"

definition detected_patcher :: patcher where
  "detected_patcher =
     (case modules_setter example_require [] [(''7'', example_factory)] registered_patcher of
        Inr P \<Rightarrow> P
      | Inl e \<Rightarrow> registered_patcher)"

text \<open>A rule that puts the \<open>data\<close> placeholder into the text, as a consumer's patch does.\<close>

definition rule_foo_data :: replacement where
  "rule_foo_data =
     \<lparr>r_match = PStr ''foo(1)'',
      r_replace = RStr (placeholders_data example_patcher @ ''.count''),
      r_global = False\<rparr>"

section \<open>Auxiliary notions\<close>

text \<open>
  Two texts do not overlap: the first is no part of the second, no end of the first is a
  beginning of the second or has the second as its beginning, and no beginning of the
  first is an end of the second.
\<close>

definition overlap_free :: "string \<Rightarrow> string \<Rightarrow> bool" where
  "overlap_free q r \<longleftrightarrow>
     \<not> sublist q r \<and>
     (\<forall>u. u \<noteq> [] \<longrightarrow> suffix u q \<longrightarrow> \<not> prefix u r \<and> \<not> prefix r u) \<and>
     (\<forall>u. u \<noteq> [] \<longrightarrow> prefix u q \<longrightarrow> \<not> suffix u r)"


text \<open>
  A regular expression with the global flag whose pattern is the literal text
  \<open>foo(1)\<close>, and a patch that has it as its \<open>find\<close>.
\<close>

definition literal_matcher :: "string \<Rightarrow> string \<Rightarrow> nat \<Rightarrow> (nat \<times> string list) option" where
  "literal_matcher p s j = (if prefix p (drop j s) then Some (length p, []) else None)"

definition global_foo :: regexp where
  "global_foo =
     \<lparr>re_ref = 0, re_global = True, re_sticky = False, re_matcher = literal_matcher ''foo(1)''\<rparr>"

definition patch_global_foo :: patch where
  "patch_global_foo =
     \<lparr>p_find = FOne (IRe global_foo), p_replacements = [rule_foo_baz],
      p_registrar_name = ''Demo''\<rparr>"

text \<open>
  A page on which that patch is registered and the runtime is detected with two modules
  whose factories have the same text.
\<close>

definition example_factory_8 :: fn_obj where
  "example_factory_8 = \<lparr>fn_ref = Host_function 8, fn_src = fn_src example_factory\<rparr>"

definition global_find_patcher :: patcher where
  "global_find_patcher =
     (case register_patches demo_options [patch_global_foo] None example_patcher of
        Inl e \<Rightarrow> example_patcher
      | Inr (r, P) \<Rightarrow>
          (case modules_setter example_require []
                  [(''7'', example_factory), (''8'', example_factory_8)] P of
             Inl e \<Rightarrow> P
           | Inr P' \<Rightarrow> P'))"

text \<open>
  No two patches of a list have \<open>find\<close> values that are strictly equal (\<open>===\<close>);
  and the identifiers of a \<open>find\<close>, as a set.
\<close>

fun distinct_finds :: "patch list \<Rightarrow> bool" where
  "distinct_finds [] = True"
| "distinct_finds (p # ps) =
     (list_all (\<lambda>e. \<not> strict_equals (p_find p) (p_find e)) ps \<and> distinct_finds ps)"

fun find_set :: "find_value \<Rightarrow> ident set" where
  "find_set (FOne i) = {i}"
| "find_set (FMany r xs) = set xs"

text \<open>Two patches of two consumers whose \<open>find\<close> arrays hold the same single string.\<close>

definition patch_array_1 :: patch where
  "patch_array_1 = \<lparr>p_find = FMany 1 [IStr ''foo(1)''], p_replacements = [rule_foo_baz],
                     p_registrar_name = []\<rparr>"

definition patch_array_2 :: patch where
  "patch_array_2 = \<lparr>p_find = FMany 2 [IStr ''foo(1)''], p_replacements = [rule_baz_qux],
                     p_registrar_name = []\<rparr>"

definition patch_foo_again :: patch where
  "patch_foo_again = \<lparr>p_find = FOne (IStr ''foo(1)''), p_replacements = [rule_baz_qux],
                       p_registrar_name = []\<rparr>"

definition other_options :: register_options where
  "other_options =
     \<lparr>opt_name = Some ''Demo'', opt_data = Some [(''enabled'', ''true'')], opt_functions = None\<rparr>"

definition second_options :: register_options where
  "second_options = \<lparr>opt_name = Some ''Other'', opt_data = None, opt_functions = None\<rparr>"

definition nameless_options :: register_options where
  "nameless_options = \<lparr>opt_name = None, opt_data = None, opt_functions = None\<rparr>"

text \<open>What the listeners of a list log when they are called: one error for each that throws.\<close>

definition listener_errors :: "string \<Rightarrow> event_args \<Rightarrow> listener list \<Rightarrow> log_entry list" where
  "listener_errors event args ls =
     concat (map (\<lambda>l. case l_run l args of
                          None \<Rightarrow> []
                        | Some e \<Rightarrow> [Error_event_listener event e]) ls)"

text \<open>A listener that returns and one that throws.\<close>

definition quiet_listener :: listener where
  "quiet_listener = \<lparr>l_ref = 1, l_run = (\<lambda>args. None)\<rparr>"

definition throwing_listener :: listener where
  "throwing_listener = \<lparr>l_ref = 2, l_run = (\<lambda>args. Some (Thrown ''boom''))\<rparr>"

section \<open>The page, as a sequence of events\<close>

text \<open>
  What reaches the patcher while the page runs: calls of the three public operations,
  writes of the host to the two hooked slots, a change of the entries of the cache object,
  and, once the collection is wrapped, a write of a factory into it or a call of a factory
  proxy.  A throw goes to the caller and leaves
  the registrar as it was.  A run starts from the registrar that \<open>main\<close> returns.
\<close>

datatype page_event =
    Register register_options "patch list"
  | Add_event_listener string listener
  | Remove_event_listener string listener
  | Cache_slot_write fn_obj "string list" "module_id \<rightharpoonup> cache_entry"
  | Cache_entries_write "module_id \<rightharpoonup> cache_entry"
  | Modules_slot_write fn_obj "string list" "(module_id \<times> fn_obj) list"
  | Factory_write module_id fn_obj
  | Factory_proxy_call module_id fn_obj

definition on_patcher ::
  "(patcher \<Rightarrow> js_error + patcher) \<Rightarrow> patch_registrar \<Rightarrow> patch_registrar"
where
  "on_patcher f R =
     (case pr_patcher R of
        None \<Rightarrow> R
      | Some P \<Rightarrow> (case f P of Inl e \<Rightarrow> R | Inr P' \<Rightarrow> R\<lparr>pr_patcher := Some P'\<rparr>))"

fun page_step :: "js_host \<Rightarrow> patch_registrar \<Rightarrow> page_event \<Rightarrow> patch_registrar" where
  "page_step h R (Register options new_patches) =
     (case registrar_register_patches options new_patches R of
        Inl e \<Rightarrow> R
      | Inr (r, R') \<Rightarrow> R')"
| "page_step h R (Add_event_listener event callback) =
     (case registrar_add_event_listener event callback R of Inl e \<Rightarrow> R | Inr R' \<Rightarrow> R')"
| "page_step h R (Remove_event_listener event callback) =
     (case registrar_remove_event_listener event callback R of Inl e \<Rightarrow> R | Inr R' \<Rightarrow> R')"
| "page_step h R (Cache_slot_write this stack_lines cache_obj) =
     on_patcher (\<lambda>P. Inr (cache_setter this stack_lines cache_obj P)) R"
| "page_step h R (Cache_entries_write entries) =
     on_patcher (\<lambda>P. Inr (cache_entries_changed entries P)) R"
| "page_step h R (Modules_slot_write this stack_lines factories) =
     on_patcher (modules_setter this stack_lines factories) R"
| "page_step h R (Factory_write module_id fac) =
     on_patcher (factories_set module_id fac) R"
| "page_step h R (Factory_proxy_call module_id fac) =
     on_patcher (\<lambda>P. case module_factories P of
                        None \<Rightarrow> Inr P
                      | Some mf \<Rightarrow> map_sum id snd (factory_proxy_apply h module_id fac P)) R"

definition run :: "js_host \<Rightarrow> page_event list \<Rightarrow> patch_registrar \<Rightarrow> patch_registrar" where
  "run h events R = foldl (page_step h) R events"

definition known_events :: "string set" where
  "known_events = {''webpack_detected'', ''module_registered'', ''module_patched''}"

text \<open>The modules setter takes a write as the detection of the runtime.\<close>

definition accepts_modules :: "patcher \<Rightarrow> fn_obj \<Rightarrow> string list \<Rightarrow> bool" where
  "accepts_modules P this stack_lines \<longleftrightarrow>
     \<not> webpack_detected P \<and> str_includes (fn_src this) ''exports:{}'' \<and>
     (case filter_func P of None \<Rightarrow> True | Some f \<Rightarrow> f this stack_lines)"

definition accepts_cache :: "patcher \<Rightarrow> fn_obj \<Rightarrow> string list \<Rightarrow> bool" where
  "accepts_cache P this stack_lines \<longleftrightarrow>
     \<not> cache_detected P \<and> str_includes (fn_src this) ''exports:{}'' \<and>
     (case filter_func P of None \<Rightarrow> True | Some f \<Rightarrow> f this stack_lines)"

text \<open>What holds of the patcher in every state of a run.\<close>

definition patcher_invariant :: "patcher \<Rightarrow> bool" where
  "patcher_invariant P \<longleftrightarrow>
     hooked P \<and>
     (webpack_require P = None) = (\<not> webpack_detected P) \<and>
     (module_factories P = None) = (\<not> webpack_detected P) \<and>
     (webpack_cache P = None) = (\<not> cache_detected P)"

definition default_options :: patcher_options where
  "default_options =
     \<lparr>enable_cache = None, o_use_eval = None, o_on_detect = None, o_filter_func = None\<rparr>"

definition name_missing :: "register_options \<Rightarrow> bool" where
  "name_missing options \<longleftrightarrow> opt_name options = None \<or> opt_name options = Some []"




definition two_listeners :: patcher where
  "two_listeners =
     example_patcher\<lparr>event_listeners :=
       \<lparr>on_webpack_detected = [], on_module_registered = [],
        on_module_patched = [throwing_listener, quiet_listener]\<rparr>\<rparr>"

text \<open>A consumer that names its registrar like a member of every object.\<close>

definition constructor_options :: register_options where
  "constructor_options =
     \<lparr>opt_name = Some ''constructor'', opt_data = Some [(''enabled'', ''true'')],
      opt_functions = None\<rparr>"

definition after_first_register :: patch_registrar where
  "after_first_register =
     (case registrar_register_patches demo_options [patch_foo]
             (fst (main default_options ''k3x9q2ab'')) of
        Inr (r, R1) \<Rightarrow> R1
      | Inl e \<Rightarrow> fst (main default_options ''k3x9q2ab''))"

section \<open>The replacement engine fails closed\<close>

lemma apply_replacement_no_match:
  "apply_replacement r code li = (Inr (t, False), li') \<Longrightarrow> t = code"
  by (auto simp: apply_replacement_def js_replace_def js_replaceAll_def
           split: if_splits sum.splits prod.splits)

lemma replacement_loop_no_substitution:
  assumes "\<forall>r\<in>set rs. \<forall>li t. fst (apply_replacement r code li) \<noteq> Inr (t, True)"
  shows "(\<exists>e lg' li'. replacement_loop rs i n mid code c lg li = (Inl (e, code, lg'), li')) \<or>
         (\<exists>lg' li'. replacement_loop rs i n mid code c lg li = (Inr (code, c, lg'), li'))"
  using assms
proof (induction rs arbitrary: i lg li)
  case Nil
  then show ?case by simp
next
  case (Cons r rs)
  obtain res li1 where a: "apply_replacement r code li = (res, li1)"
    by (cases "apply_replacement r code li")
  show ?case
  proof (cases res)
    case (Inl e)
    with a show ?thesis by simp
  next
    case (Inr x)
    obtain t occ where x: "x = (t, occ)" by (cases x)
    from Cons.prems have "fst (apply_replacement r code li) \<noteq> Inr (t, True)" by simp
    with a Inr x have occ: "\<not> occ" by (cases occ) auto
    with a Inr x have t: "t = code" using apply_replacement_no_match by simp
    from Cons.prems
    have "\<forall>r\<in>set rs. \<forall>li t. fst (apply_replacement r code li) \<noteq> Inr (t, True)" by simp
    from Cons.IH[OF this, of "Suc i" "lg @ [Warn_replacement_skipped (Suc i) n mid]" li1]
    show ?thesis using a Inr x occ t by simp
  qed
qed

text \<open>
  C2.  \<open>_apply_patch\<close> is fail-closed: if no rule of the list substitutes anything in the
  factory text (none can, or the loop over the rules ends with no replacement counted), or
  if a rule throws, or if the rules run through and compiling the edited text throws, the
  result is the factory and the factory string it was given, and the last thing logged is
  the warning that nothing was replaced or the error that was caught.  The function always
  returns a result; no error leaves it.
\<close>

theorem apply_patch_fail_closed:
  assumes "(\<forall>r\<in>set rs. \<forall>li t. fst (apply_replacement r fac_str li) \<noteq> Inr (t, True)) \<or>
           (\<exists>edited lg li.
              replacement_loop rs 0 (length rs) mid fac_str 0 [] (last_index P) =
                (Inr (edited, 0, lg), li)) \<or>
           (\<exists>e code lg li.
              replacement_loop rs 0 (length rs) mid fac_str 0 [] (last_index P) =
                (Inl (e, code, lg), li)) \<or>
           (\<exists>edited c lg li e.
              replacement_loop rs 0 (length rs) mid fac_str 0 [] (last_index P) =
                (Inr (edited, c, lg), li) \<and>
              compile h P new_ref mid (replace_placeholders P name edited) = Inl e)"
  shows "fst (apply_patch h P new_ref fac fac_str rs mid name) = \<lparr>factory = fac, factory_str = fac_str\<rparr> \<and>
         (\<exists>lg. fst (snd (apply_patch h P new_ref fac fac_str rs mid name)) =
                 lg @ [Warn_no_replacements mid] \<or>
               (\<exists>e code. fst (snd (apply_patch h P new_ref fac fac_str rs mid name)) =
                          lg @ [Error_patching_failed e code]))"
  using assms
proof (elim disjE)
  assume "\<forall>r\<in>set rs. \<forall>li t. fst (apply_replacement r fac_str li) \<noteq> Inr (t, True)"
  from replacement_loop_no_substitution[OF this, of 0 "length rs" mid 0 "[]" "last_index P"]
  show ?thesis
    by (auto simp: apply_patch_def)
next
  assume "\<exists>edited lg li.
            replacement_loop rs 0 (length rs) mid fac_str 0 [] (last_index P) =
              (Inr (edited, 0, lg), li)"
  then show ?thesis
    by (auto simp: apply_patch_def)
next
  assume "\<exists>e code lg li.
            replacement_loop rs 0 (length rs) mid fac_str 0 [] (last_index P) =
              (Inl (e, code, lg), li)"
  then show ?thesis
    by (auto simp: apply_patch_def)
next
  assume "\<exists>edited c lg li e.
            replacement_loop rs 0 (length rs) mid fac_str 0 [] (last_index P) =
              (Inr (edited, c, lg), li) \<and>
            compile h P new_ref mid (replace_placeholders P name edited) = Inl e"
  then show ?thesis
    by (auto simp: apply_patch_def Let_def)
qed

lemma rule_absent_no_match:
  "fst (apply_replacement rule_absent (fn_src example_factory) li) =
     Inr (fn_src example_factory, False)"
  by (simp add: rule_absent_def example_factory_def apply_replacement_def js_replaceAll_def
        matches_replaceAll_def)

theorem apply_patch_fail_closed_witness:
  "fst (apply_replacement rule_absent (fn_src example_factory) (last_index example_patcher)) =
     Inr (fn_src example_factory, False) \<and>
   fst (apply_patch example_host example_patcher (Compiled ''7'' 0) example_factory (fn_src example_factory)
          [rule_absent] ''7'' ''Demo'') =
     \<lparr>factory = example_factory, factory_str = fn_src example_factory\<rparr>"
proof -
  have h: "\<forall>r\<in>set [rule_absent]. \<forall>li t.
             fst (apply_replacement r (fn_src example_factory) li) \<noteq> Inr (t, True)"
    by (simp add: rule_absent_no_match)
  from apply_patch_fail_closed[OF disjI1, OF h] rule_absent_no_match show ?thesis by blast
qed

text \<open>
  On a page that forbids dynamic code the rule replaces, compiling throws, and the result is
  the original factory with the error logged.
\<close>

lemma apply_patch_compile_throws_example:
  "(case apply_patch strict_host example_patcher (Compiled ''7'' 0) example_factory
          (fn_src example_factory) [rule_foo_baz] ''7'' ''Demo'' of
      (res, lg, li) \<Rightarrow>
        res = \<lparr>factory = example_factory, factory_str = fn_src example_factory\<rparr> \<and>
        lg = [Error_patching_failed (Thrown ''EvalError'')
                ''function a(){return baz(1)+bar(2)}''])"
  by code_simp

section \<open>Rules and patches are chained\<close>







text \<open>
  Two patches: the second one's \<open>find\<close> is only in the text the first one produced; it
  matches and is applied to that text.
\<close>

lemma patches_are_chained_example:
  "\<not> fst (check_pattern_match (fn_src example_factory) patch_baz (\<lambda>re. 0)) \<and>
   fst (snd (patch_loop example_host example_patcher ''7'' [patch_foo, patch_baz] 0
               example_factory (fn_src example_factory) False [])) =
     ''function a(){return qux(1)+bar(2)}''"
  by code_simp

text \<open>
  A regular expression with the global flag keeps its \<open>lastIndex\<close> from one
  \<open>test\<close> to the next: as the \<open>find\<close> of a patch it matches a text, and fails
  on the same text the next time.
\<close>

lemma global_find_alternates:
  "(case check_pattern_match (fn_src example_factory) patch_global_foo (\<lambda>re. 0) of
      (b1, li1) \<Rightarrow>
        b1 \<and> li1 0 = 26 \<and>
        (case check_pattern_match (fn_src example_factory) patch_global_foo li1 of
           (b2, li2) \<Rightarrow> \<not> b2 \<and> li2 0 = 0))"
  by code_simp

text \<open>
  So, of two modules with the same text, a patch with such a \<open>find\<close> is applied to
  the first that is called and not to the second.
\<close>

lemma global_find_skips_second_module:
  "(case get_or_patch_factory example_host ''7'' example_factory global_find_patcher of
      Inl e \<Rightarrow> False
    | Inr (f7, P1) \<Rightarrow>
        fn_ref f7 = Compiled ''7'' 0 \<and>
        map_sum id fst (get_or_patch_factory example_host ''8'' example_factory_8 P1) =
          Inr example_factory_8)"
  by code_simp

section \<open>A module is attempted at most once\<close>

lemma get_or_patch_factory_marks:
  assumes "get_or_patch_factory h module_id fac P = Inr (f, P')"
      and "sym_original_factory P (fn_ref fac) = None"
  shows "module_id \<in> patched_modules P'"
  using assms
  by (auto simp: get_or_patch_factory_def Let_def
           split: if_splits prod.splits option.splits sum.splits)

lemma get_or_patch_factory_again:
  "module_id \<in> patched_modules P \<Longrightarrow> get_or_patch_factory h module_id fac P = Inr (fac, P)"
  by (simp add: get_or_patch_factory_def)

lemma get_or_patch_factory_marks_example:
  "(case get_or_patch_factory example_host ''7'' example_factory detected_patcher of
      Inl e \<Rightarrow> False
    | Inr (f, P') \<Rightarrow> ''7'' \<in> patched_modules P') \<and>
   (case get_or_patch_factory strict_host ''7'' example_factory detected_patcher of
      Inl e \<Rightarrow> False
    | Inr (f, P') \<Rightarrow> f = example_factory \<and> ''7'' \<in> patched_modules P')"
  by code_simp

text \<open>
  C1.  The first call of a module's factory proxy puts the module id into
  \<open>patched_modules\<close>, whether or not a patch was applied
  (\<open>get_or_patch_factory_marks\<close>), and a later call runs no matching and no
  replacement and leaves the state as it is (\<open>get_or_patch_factory_again\<close>).  What the
  later call hands back is the proxy's own target.  On the page below, module \<open>7\<close> matches
  the registered patch: the first call of its proxy compiles the patched factory, stores it
  in the collection and runs it; the second call of the same proxy runs the original
  factory, not the stored one.
\<close>

theorem proxy_second_call_runs_original:
  "(case factory_proxy_apply example_host ''7'' example_factory detected_patcher of
      Inl e \<Rightarrow> False
    | Inr (f1, P1) \<Rightarrow>
        fn_ref f1 = Compiled ''7'' 0 \<and>
        ''7'' \<in> patched_modules P1 \<and>
        map_option (\<lambda>mf. mf ''7'') (module_factories P1) = Some (Some (Plain f1)) \<and>
        map_sum id fst (factory_proxy_apply example_host ''7'' example_factory P1) =
          Inr example_factory \<and>
        example_factory \<noteq> f1)"
  by code_simp

section \<open>Placeholders are resolved\<close>

subsection \<open>\<open>replaceAll\<close> with a plain replacement, from the first occurrence on\<close>

lemma find_index_None_iff: "find_index p t = None \<longleftrightarrow> \<not> sublist p t"
  by (induction t) (auto simp: sublist_Cons_right)

lemma str_includes_sublist: "str_includes t p \<longleftrightarrow> sublist p t"
  by (simp add: str_includes_def find_index_None_iff)

lemma find_index_Some:
  "find_index p t = Some i \<Longrightarrow>
     i + length p \<le> length t \<and> take (length p) (drop i t) = p \<and> (\<forall>k<i. \<not> prefix p (drop k t))"
proof (induction t arbitrary: i)
  case Nil
  then show ?case by (auto split: if_splits)
next
  case (Cons c cs)
  show ?case
  proof (cases "prefix p (c # cs)")
    case True
    with Cons.prems have "i = 0" by simp
    moreover from True obtain zs where zs: "c # cs = p @ zs" by (auto simp: prefix_def)
    moreover from zs have "length (c # cs) = length p + length zs"
      by (metis length_append)
    ultimately show ?thesis by simp
  next
    case False
    with Cons.prems obtain j where j: "find_index p cs = Some j" "i = Suc j" by auto
    from Cons.IH[OF j(1)] j(2) False show ?thesis
      by (auto simp: less_Suc_eq_0_disj)
  qed
qed

lemma occurrences_skip:
  "p \<noteq> [] \<Longrightarrow> occurrences p t pos skip = occurrences p (drop skip t) (pos + skip) 0"
proof (induction t arbitrary: pos skip)
  case Nil
  then show ?case by simp
next
  case (Cons c cs)
  then show ?case by (cases skip) auto
qed

lemma occurrences_find_index:
  "p \<noteq> [] \<Longrightarrow>
   occurrences p t pos 0 =
     (case find_index p t of
        None \<Rightarrow> []
      | Some i \<Rightarrow> (pos + i) # occurrences p (drop (i + length p) t) (pos + i + length p) 0)"
proof (induction t arbitrary: pos)
  case Nil
  then show ?case by simp
next
  case (Cons c cs)
  show ?case
  proof (cases "prefix p (c # cs)")
    case True
    from Cons.prems obtain a p' where p: "p = a # p'" by (cases p) auto
    have "occurrences p cs (Suc pos) (length p - 1) =
          occurrences p (drop (length p - 1) cs) (Suc pos + (length p - 1)) 0"
      using occurrences_skip[OF Cons.prems] .
    with True p show ?thesis by simp
  next
    case False
    with Cons.IH[OF Cons.prems, of "Suc pos"] show ?thesis
      by (auto split: option.splits)
  qed
qed

lemma occurrences_shift:
  "occurrences p t (pos + d) skip = map ((+) d) (occurrences p t pos skip)"
proof (induction t arbitrary: pos skip)
  case Nil
  then show ?case by simp
next
  case (Cons c cs)
  from Cons[of "Suc pos"] show ?case by simp
qed

lemma get_substitution_plain:
  "CHR ''$'' \<notin> set template \<Longrightarrow> get_substitution m s pos template = template"
  by (induction m s pos template rule: get_substitution.induct) auto

lemma splice_shift:
  "splice (pre @ B) (length pre + n) (map (string_match p (pre @ B)) (map ((+) (length pre)) os))
     (\<lambda>m. Inr r) =
   splice B n (map (string_match p B) os) (\<lambda>m. Inr r)"
proof (induction os arbitrary: n)
  case Nil
  then show ?case by simp
next
  case (Cons o1 os)
  from Cons[of "o1 + length p"] Cons[of n] show ?case
    by (simp add: string_match_def add.assoc split: sum.splits)
qed

lemma splice_const_Inr: "\<exists>y. splice s n ms (\<lambda>m. Inr r) = Inr y"
proof (induction ms arbitrary: n)
  case Nil
  then show ?case by simp
next
  case (Cons m ms)
  from Cons[of n] obtain y1 where y1: "splice s n ms (\<lambda>m. Inr r) = Inr y1" by blast
  from Cons[of "m_offset m + length (m_text m)"] obtain y2
    where y2: "splice s (m_offset m + length (m_text m)) ms (\<lambda>m. Inr r) = Inr y2" by blast
  from y1 y2 show ?case by simp
qed

lemma replaceAll_str_unfold:
  assumes "p \<noteq> []" and "CHR ''$'' \<notin> set r"
  shows "replaceAll_str t p r =
           (case find_index p t of
              None \<Rightarrow> t
            | Some i \<Rightarrow> take i t @ r @ replaceAll_str (drop (i + length p) t) p r)"
proof (cases "find_index p t")
  case None
  with assms show ?thesis
    by (simp add: replaceAll_str_def occurrences_find_index)
next
  case (Some i)
  let ?B = "drop (i + length p) t"
  let ?pre = "take (i + length p) t"
  from find_index_Some[OF Some] have len: "i + length p \<le> length t" by simp
  then have lp: "length ?pre = i + length p" by simp
  have t: "t = ?pre @ ?B" by simp
  have f: "(\<lambda>m. Inr (get_substitution (m_text m) s (m_offset m) r)) = (\<lambda>m. Inr r :: js_error + string)" for s
    using assms(2) by (simp add: get_substitution_plain)
  have occ: "occurrences p ?B (i + length p) 0 = map ((+) (length ?pre)) (occurrences p ?B 0 0)"
    using occurrences_shift[of p ?B 0 "i + length p" 0] lp by simp
  have "splice t (i + length p) (map (string_match p t) (occurrences p ?B (i + length p) 0)) (\<lambda>m. Inr r)
        = splice (?pre @ ?B) (length ?pre + 0) (map (string_match p (?pre @ ?B)) (map ((+) (length ?pre)) (occurrences p ?B 0 0))) (\<lambda>m. Inr r)"
    using occ lp by simp
  also have "\<dots> = splice ?B 0 (map (string_match p ?B) (occurrences p ?B 0 0)) (\<lambda>m. Inr r)"
    by (rule splice_shift)
  finally have sh: "splice t (i + length p) (map (string_match p t) (occurrences p ?B (i + length p) 0)) (\<lambda>m. Inr r)
        = splice ?B 0 (map (string_match p ?B) (occurrences p ?B 0 0)) (\<lambda>m. Inr r)" .
  obtain y where y: "splice ?B 0 (map (string_match p ?B) (occurrences p ?B 0 0)) (\<lambda>m. Inr r) = Inr y"
    using splice_const_Inr by blast
  show ?thesis
    using Some assms(1) sh y
    by (simp add: replaceAll_str_def f occurrences_find_index[OF assms(1)] string_match_def)
qed

subsection \<open>Texts that do not overlap\<close>

lemma no_overlap:
  assumes of: "overlap_free q r" and sub: "sublist q (X @ r @ Y)"
  shows "sublist q X \<or> sublist q Y"
proof -
  from sub consider
      (1) "sublist q X"
    | (2) "sublist q (r @ Y)"
    | (3) q1 q2 where "q = q1 @ q2" "suffix q1 X" "prefix q2 (r @ Y)"
    by (auto simp: sublist_append[of q X])
  then show ?thesis
  proof cases
    case 1
    then show ?thesis by simp
  next
    case 3
    show ?thesis
    proof (cases "q2 = []")
      case True
      with 3 show ?thesis by auto
    next
      case False
      from 3(1) have "suffix q2 q" by (simp add: suffix_def)
      with of False have "\<not> prefix q2 r" "\<not> prefix r q2" by (auto simp: overlap_free_def)
      moreover from 3(3) have "prefix q2 r \<or> prefix r q2"
        by (auto simp: prefix_append)
      ultimately show ?thesis by simp
    qed
  next
    case 2
    then consider
        (a) "sublist q r"
      | (b) "sublist q Y"
      | (c) q1 q2 where "q = q1 @ q2" "suffix q1 r" "prefix q2 Y"
      by (auto simp: sublist_append[of q r])
    then show ?thesis
    proof cases
      case a
      with of show ?thesis by (simp add: overlap_free_def)
    next
      case b
      then show ?thesis by simp
    next
      case c
      show ?thesis
      proof (cases "q1 = []")
        case True
        with c show ?thesis by auto
      next
        case False
        from c(1) have "prefix q1 q" by simp
        with of False c(2) show ?thesis by (auto simp: overlap_free_def)
      qed
    qed
  qed
qed

lemma replaceAll_str_removes:
  assumes p: "p \<noteq> []" and d: "CHR ''$'' \<notin> set r"
      and of: "overlap_free q r"
      and t: "q = p \<or> \<not> sublist q t"
  shows "\<not> sublist q (replaceAll_str t p r)"
  using t
proof (induction "length t" arbitrary: t rule: less_induct)
  case less
  show ?case
  proof (cases "find_index p t")
    case None
    then have "replaceAll_str t p r = t"
      using replaceAll_str_unfold[OF p d, of t] by simp
    moreover from None have "\<not> sublist p t" by (simp add: find_index_None_iff)
    ultimately show ?thesis using less.prems by auto
  next
    case (Some i)
    let ?A = "take i t" and ?B = "drop (i + length p) t"
    from find_index_Some[OF Some]
    have len: "i + length p \<le> length t" and at: "take (length p) (drop i t) = p"
      and first: "\<forall>k<i. \<not> prefix p (drop k t)" by simp_all
    have res: "replaceAll_str t p r = ?A @ r @ replaceAll_str ?B p r"
      using replaceAll_str_unfold[OF p d, of t] Some by simp
    have "length ?B < length t" using len p by (cases p) auto
    moreover have "q = p \<or> \<not> sublist q ?B"
    proof (cases "q = p")
      case False
      with less.prems have "\<not> sublist q t" by simp
      moreover have "sublist ?B t" by simp
      ultimately show ?thesis using sublist_order.order_trans by blast
    qed simp
    ultimately have B: "\<not> sublist q (replaceAll_str ?B p r)"
      using less.hyps by blast
    have A: "\<not> sublist q ?A"
    proof (cases "q = p")
      case True
      show ?thesis
      proof
        assume "sublist q ?A"
        then obtain ps ss where ps: "?A = ps @ p @ ss" using True by (auto simp: sublist_def)
        then have "length ps + length p \<le> i"
          by (metis length_append length_take min.cobounded2 add.assoc le_add1 order_trans)
        with p have lt: "length ps < i" by (cases p) auto
        have "t = ps @ p @ ss @ drop i t"
          by (metis ps append_take_drop_id append.assoc)
        then have "prefix p (drop (length ps) t)"
          by (metis append_eq_conv_conj prefixI)
        with first lt show False by blast
      qed
    next
      case False
      with less.prems have "\<not> sublist q t" by simp
      moreover have "sublist ?A t" by simp
      ultimately show ?thesis using sublist_order.order_trans by blast
    qed
    show ?thesis
    proof
      assume "sublist q (replaceAll_str t p r)"
      with res have "sublist q (?A @ r @ replaceAll_str ?B p r)" by simp
      from no_overlap[OF of this] A B show False by blast
    qed
  qed
qed

lemma sublist_split_at:
  assumes "x \<notin> set q" and "sublist q (xs @ x # ys)"
  shows "sublist q xs \<or> sublist q ys"
proof -
  from assms(2) obtain ps ss where eq: "xs @ x # ys = ps @ q @ ss" by (auto simp: sublist_def)
  then consider (l) us where "xs = ps @ us" "us @ x # ys = q @ ss" 
    | (r) us where "xs @ us = ps" "x # ys = us @ q @ ss"
    by (auto simp: append_eq_append_conv2)
  then show ?thesis
  proof cases
    case l
    from l(2) consider (ll) vs where "us = q @ vs" | (lr) vs where "us @ vs = q" "x # ys = vs @ ss" "vs \<noteq> []"
      by (auto simp: append_eq_append_conv2 ) (metis append.right_neutral)
    then show ?thesis
    proof cases
      case ll
      with l(1) show ?thesis by (auto simp: sublist_def)
    next
      case lr
      then obtain v vs' where "vs = v # vs'" by (cases vs) auto
      with lr have "x \<in> set q" by auto
      with assms(1) show ?thesis by simp
    qed
  next
    case r
    show ?thesis
    proof (cases us)
      case Nil
      with r(2) assms(1) show ?thesis by (cases q) (auto simp: sublist_def)
    next
      case (Cons u us')
      with r(2) have "ys = us' @ q @ ss" by simp
      then show ?thesis by (auto simp: sublist_def)
    qed
  qed
qed

lemma suffix_split_at:
  assumes "x \<notin> set u" and "suffix u (xs @ x # ys)"
  shows "suffix u ys"
proof -
  from assms(2) have "suffix u (x # ys) \<or> (\<exists>u'. u = u' @ x # ys \<and> suffix u' xs)"
    by (simp add: suffix_append)
  with assms(1) have "suffix u (x # ys)" by auto
  with assms(1) show ?thesis by (auto simp: suffix_Cons)
qed

lemma no_WE_in_head: "\<not> sublist ''WE'' ''window.WebpackPatcher.Registrars[''"
  by code_simp

lemma token_overlap_free:
  assumes q: "q = ''WE'' @ body @ ident"
      and body: "CHR ''w'' \<notin> set body" "CHR ''.'' \<notin> set body" "CHR 0x22 \<notin> set body"
      and id1: "CHR ''.'' \<notin> set ident" "CHR 0x22 \<notin> set ident"
      and id2: "\<forall>u. u \<noteq> [] \<longrightarrow> suffix u ident \<longrightarrow> \<not> prefix u ''window''"
      and r: "r = ''window.WebpackPatcher.Registrars['' @ CHR 0x22 # name @ CHR 0x22 # tail"
      and tail: "CHR ''W'' \<notin> set tail"
      and name: "\<not> sublist q name"
  shows "overlap_free q r"
proof -
  have qdot: "CHR ''.'' \<notin> set q" and qquote: "CHR 0x22 \<notin> set q" and qW: "CHR ''W'' \<in> set q"
    using q body id1 by auto
  have mid: "\<not> sublist q r"
  proof
    assume "sublist q r"
    with r have "sublist q (''window.WebpackPatcher.Registrars['' @ CHR 0x22 # (name @ CHR 0x22 # tail))"
      by simp
    from sublist_split_at[OF qquote this]
    have "sublist q ''window.WebpackPatcher.Registrars['' \<or> sublist q (name @ CHR 0x22 # tail)" .
    then show False
    proof
      assume a: "sublist q ''window.WebpackPatcher.Registrars[''"
      have "sublist ''WE'' q" using q by (metis prefixI prefix_imp_sublist)
      with a have "sublist ''WE'' ''window.WebpackPatcher.Registrars[''"
        using sublist_order.order_trans by blast
      with no_WE_in_head show False by simp
    next
      assume "sublist q (name @ CHR 0x22 # tail)"
      from sublist_split_at[OF qquote this] name have "sublist q tail" by simp
      then have "set q \<subseteq> set tail" by (rule set_mono_sublist)
      with qW tail show False by auto
    qed
  qed
  have suf: "\<not> prefix u r \<and> \<not> prefix r u" if u: "u \<noteq> []" "suffix u q" for u
  proof
    show "\<not> prefix u r"
    proof
      assume pr: "prefix u r"
      from u(1) obtain x xs where ux: "u = x # xs" by (cases u) auto
      with pr r have x: "x = CHR ''w''" by (simp add: prefix_def)
      have "suffix u ident"
      proof -
        from u(2) q have "suffix u ((''WE'' @ body) @ ident)" by simp
        then have "suffix u ident \<or> (\<exists>u'. u = u' @ ident \<and> suffix u' (''WE'' @ body))"
          by (simp only: suffix_append)
        then show ?thesis
        proof
          assume "\<exists>u'. u = u' @ ident \<and> suffix u' (''WE'' @ body)"
          then obtain u' where u': "u = u' @ ident" "suffix u' (''WE'' @ body)" by blast
          show ?thesis
          proof (cases u')
            case Nil
            with u'(1) show ?thesis by simp
          next
            case (Cons y ys)
            with u'(1) ux x have "y = CHR ''w''" by simp
            with Cons have "CHR ''w'' \<in> set u'" by simp
            moreover from u'(2) have "set u' \<subseteq> set (''WE'' @ body)"
              by (meson set_mono_sublist suffix_imp_sublist)
            ultimately show ?thesis using body(1) by auto
          qed
        qed simp
      qed
      from pr r have "prefix u (''window'' @ ''.WebpackPatcher.Registrars['' @ CHR 0x22 # name @ CHR 0x22 # tail)"
        by simp
      then have "prefix u ''window'' \<or>
                 (\<exists>us. u = ''window'' @ us \<and> prefix us (''.WebpackPatcher.Registrars['' @ CHR 0x22 # name @ CHR 0x22 # tail))"
        by (simp only: prefix_append)
      then show False
      proof
        assume "prefix u ''window''"
        with id2 u(1) \<open>suffix u ident\<close> show False by blast
      next
        assume "\<exists>us. u = ''window'' @ us \<and> prefix us (''.WebpackPatcher.Registrars['' @ CHR 0x22 # name @ CHR 0x22 # tail)"
        then obtain us where us: "u = ''window'' @ us"
          "prefix us (''.WebpackPatcher.Registrars['' @ CHR 0x22 # name @ CHR 0x22 # tail)" by blast
        show False
        proof (cases us)
          case Nil
          with us(1) have "prefix u ''window''" by simp
          with id2 u(1) \<open>suffix u ident\<close> show False by blast
        next
          case (Cons z zs)
          with us(2) have "z = CHR ''.''" by (simp add: prefix_def)
          with Cons us(1) have "CHR ''.'' \<in> set u" by simp
          moreover from \<open>suffix u ident\<close> have "set u \<subseteq> set ident"
            by (meson set_mono_sublist suffix_imp_sublist)
          ultimately show False using id1(1) by auto
        qed
      qed
    qed
  next
    show "\<not> prefix r u"
    proof
      assume "prefix r u"
      then have "set r \<subseteq> set u" by (meson set_mono_sublist prefix_imp_sublist)
      moreover from u(2) have "set u \<subseteq> set q" by (meson set_mono_sublist suffix_imp_sublist)
      moreover have "CHR ''.'' \<in> set r" using r by simp
      ultimately show False using qdot by auto
    qed
  qed
  have pre: "\<not> suffix u r" if u: "u \<noteq> []" "prefix u q" for u
  proof
    assume su: "suffix u r"
    from u(2) have sub: "set u \<subseteq> set q" by (meson set_mono_sublist prefix_imp_sublist)
    with qquote have nq: "CHR 0x22 \<notin> set u" by auto
    from su r have "suffix u ((''window.WebpackPatcher.Registrars['' @ CHR 0x22 # name) @ CHR 0x22 # tail)"
      by simp
    from suffix_split_at[OF nq this] have "suffix u tail" .
    then have "set u \<subseteq> set tail" by (meson set_mono_sublist suffix_imp_sublist)
    moreover from u q have "CHR ''W'' \<in> set u" by (cases u) (auto simp: prefix_def)
    ultimately show False using tail by auto
  qed
  from mid suf pre show ?thesis unfolding overlap_free_def by blast
qed

subsection \<open>The three passes\<close>

lemma no_w_no_window_suffix:
  assumes "CHR ''w'' \<notin> set ident"
  shows "\<forall>u. u \<noteq> [] \<longrightarrow> suffix u ident \<longrightarrow> \<not> prefix u ''window''"
proof (intro allI impI notI)
  fix u assume u: "u \<noteq> []" "suffix u ident" "prefix u ''window''"
  from u(1) obtain x xs where ux: "u = x # xs" by (cases u) auto
  with u(3) have "x = CHR ''w''" by (simp add: prefix_def)
  with ux have "CHR ''w'' \<in> set u" by simp
  moreover from u(2) have "set u \<subseteq> set ident" by (meson set_mono_sublist suffix_imp_sublist)
  ultimately show False using assms by auto
qed

lemma expr_shape:
  assumes r: "r \<in> snd ` set (placeholder_replacements P name)"
  obtains tail where
    "r = ''window.WebpackPatcher.Registrars['' @ CHR 0x22 # name @ CHR 0x22 # tail"
    "CHR ''W'' \<notin> set tail"
proof -
  from r have "r = registrar_expr name \<or> r = registrar_expr name @ ''.functions'' \<or>
               r = registrar_expr name @ ''.data''"
    by (simp add: placeholder_replacements_def)
  then show ?thesis
  proof (elim disjE)
    assume "r = registrar_expr name"
    then have "r = ''window.WebpackPatcher.Registrars['' @ CHR 0x22 # name @ CHR 0x22 # '']''"
      by (simp add: registrar_expr_def)
    then show ?thesis by (rule that) simp
  next
    assume "r = registrar_expr name @ ''.functions''"
    then have "r = ''window.WebpackPatcher.Registrars['' @ CHR 0x22 # name @ CHR 0x22 # ''].functions''"
      by (simp add: registrar_expr_def)
    then show ?thesis by (rule that) simp
  next
    assume "r = registrar_expr name @ ''.data''"
    then have "r = ''window.WebpackPatcher.Registrars['' @ CHR 0x22 # name @ CHR 0x22 # ''].data''"
      by (simp add: registrar_expr_def)
    then show ?thesis by (rule that) simp
  qed
qed

lemma placeholder_overlap_free:
  assumes id36: "set (placeholder_id P) \<subseteq> set ''0123456789abcdefghijklmnopqrstuvwxyz''"
      and idw: "\<forall>u. u \<noteq> [] \<longrightarrow> suffix u (placeholder_id P) \<longrightarrow> \<not> prefix u ''window''"
      and q: "q \<in> {placeholders_self P, placeholders_functions P, placeholders_data P}"
      and r: "r \<in> snd ` set (placeholder_replacements P name)"
      and name: "\<not> sublist q name"
  shows "overlap_free q r"
proof -
  from id36 have id1: "CHR ''.'' \<notin> set (placeholder_id P)" "CHR 0x22 \<notin> set (placeholder_id P)"
    by auto
  from q obtain body where body: "q = ''WE'' @ body @ placeholder_id P"
    "CHR ''w'' \<notin> set body" "CHR ''.'' \<notin> set body" "CHR 0x22 \<notin> set body"
  proof (elim insertE emptyE)
    assume "q = placeholders_self P"
    then have "q = ''WE'' @ ''BPACKPATCHER_PLACEHOLDER_SELF_'' @ placeholder_id P"
      by (simp add: placeholders_self_def)
    then show ?thesis by (rule that) simp_all
  next
    assume "q = placeholders_functions P"
    then have "q = ''WE'' @ ''BPACKPATCHER_PLACEHOLDER_FUNCTIONS_'' @ placeholder_id P"
      by (simp add: placeholders_functions_def)
    then show ?thesis by (rule that) simp_all
  next
    assume "q = placeholders_data P"
    then have "q = ''WE'' @ ''BPACKPATCHER_PLACEHOLDER_DATA_'' @ placeholder_id P"
      by (simp add: placeholders_data_def)
    then show ?thesis by (rule that) simp_all
  qed
  from r obtain tail where tail:
    "r = ''window.WebpackPatcher.Registrars['' @ CHR 0x22 # name @ CHR 0x22 # tail"
    "CHR ''W'' \<notin> set tail"
    by (rule expr_shape)
  from token_overlap_free[OF body(1) body(2) body(3) body(4) id1 idw tail(1) tail(2) name]
  show ?thesis .
qed

lemma replace_placeholders_unfold:
  "replace_placeholders P name code =
     replaceAll_str
       (replaceAll_str
          (replaceAll_str code (placeholders_self P) (registrar_expr name))
          (placeholders_functions P) (registrar_expr name @ ''.functions''))
       (placeholders_data P) (registrar_expr name @ ''.data'')"
  by (simp add: replace_placeholders_def placeholder_replacements_def)

lemma replace_placeholders_clean:
  assumes id36: "set (placeholder_id P) \<subseteq> set ''0123456789abcdefghijklmnopqrstuvwxyz''"
      and idw: "\<forall>u. u \<noteq> [] \<longrightarrow> suffix u (placeholder_id P) \<longrightarrow> \<not> prefix u ''window''"
      and nd: "CHR ''$'' \<notin> set name"
      and nS: "\<not> sublist (placeholders_self P) name"
      and nF: "\<not> sublist (placeholders_functions P) name"
      and nD: "\<not> sublist (placeholders_data P) name"
  shows "\<not> sublist (placeholders_self P) (replace_placeholders P name code) \<and>
         \<not> sublist (placeholders_functions P) (replace_placeholders P name code) \<and>
         \<not> sublist (placeholders_data P) (replace_placeholders P name code)"
proof -
  let ?S = "placeholders_self P" and ?F = "placeholders_functions P" and ?D = "placeholders_data P"
  let ?rS = "registrar_expr name" and ?rF = "registrar_expr name @ ''.functions''"
  and ?rD = "registrar_expr name @ ''.data''"
  let ?t1 = "replaceAll_str code ?S ?rS"
  let ?t2 = "replaceAll_str ?t1 ?F ?rF"
  let ?t3 = "replaceAll_str ?t2 ?D ?rD"
  have ne: "?S \<noteq> []" "?F \<noteq> []" "?D \<noteq> []"
    by (simp_all add: placeholders_self_def placeholders_functions_def placeholders_data_def)
  have dl: "CHR ''$'' \<notin> set ?rS" "CHR ''$'' \<notin> set ?rF" "CHR ''$'' \<notin> set ?rD"
    using nd by (simp_all add: registrar_expr_def)
  have rs: "?rS \<in> snd ` set (placeholder_replacements P name)"
           "?rF \<in> snd ` set (placeholder_replacements P name)"
           "?rD \<in> snd ` set (placeholder_replacements P name)"
    by (simp_all add: placeholder_replacements_def)
  note of = placeholder_overlap_free[OF id36 idw]
  have S1: "\<not> sublist ?S ?t1"
    by (rule replaceAll_str_removes[OF ne(1) dl(1) of[OF _ rs(1) nS]]) simp_all
  have S2: "\<not> sublist ?S ?t2"
    by (rule replaceAll_str_removes[OF ne(2) dl(2) of[OF _ rs(2) nS]]) (simp_all add: S1)
  have S3: "\<not> sublist ?S ?t3"
    by (rule replaceAll_str_removes[OF ne(3) dl(3) of[OF _ rs(3) nS]]) (simp_all add: S2)
  have F2: "\<not> sublist ?F ?t2"
    by (rule replaceAll_str_removes[OF ne(2) dl(2) of[OF _ rs(2) nF]]) simp_all
  have F3: "\<not> sublist ?F ?t3"
    by (rule replaceAll_str_removes[OF ne(3) dl(3) of[OF _ rs(3) nF]]) (simp_all add: F2)
  have D3: "\<not> sublist ?D ?t3"
    by (rule replaceAll_str_removes[OF ne(3) dl(3) of[OF _ rs(3) nD]]) simp_all
  from S3 F3 D3 show ?thesis by (simp add: replace_placeholders_unfold)
qed

lemma apply_patch_success:
  assumes "fn_ref (factory (fst (apply_patch h P new_ref fac fac_str rs mid name))) \<noteq> fn_ref fac"
  shows "\<exists>edited c lg li.
           replacement_loop rs 0 (length rs) mid fac_str 0 [] (last_index P) =
             (Inr (edited, c, lg), li) \<and>
           factory_str (fst (apply_patch h P new_ref fac fac_str rs mid name)) =
             replace_placeholders P name edited"
  using assms
  by (auto simp: apply_patch_def Let_def split: sum.splits prod.splits if_splits)

lemma example_id: "placeholder_id example_patcher = ''k3x9q2ab''"
  by (simp add: example_patcher_def initialize_def hook_webpack_def new_WebpackPatcher_def)

text \<open>
  C4 (as amended).  After a successful patch application (the factory returned is a new
  one), the source text returned is the edited text with the three placeholder passes
  applied, and it contains none of the three placeholder tokens, provided that the
  registrar name of the patch contains no \<open>$\<close> and none of the three tokens, and
  that the placeholder id consists of digits and lower-case letters and does not end in a
  beginning of the word \<open>window\<close>.
\<close>

theorem placeholders_resolved:
  assumes ok: "fn_ref (factory (fst (apply_patch h P new_ref fac fac_str rs mid name))) \<noteq> fn_ref fac"
      and id36: "set (placeholder_id P) \<subseteq> set ''0123456789abcdefghijklmnopqrstuvwxyz''"
      and idw: "\<forall>u. u \<noteq> [] \<longrightarrow> suffix u (placeholder_id P) \<longrightarrow> \<not> prefix u ''window''"
      and nd: "CHR ''$'' \<notin> set name"
      and nS: "\<not> str_includes name (placeholders_self P)"
      and nF: "\<not> str_includes name (placeholders_functions P)"
      and nD: "\<not> str_includes name (placeholders_data P)"
  shows "(\<exists>edited c lg li.
            replacement_loop rs 0 (length rs) mid fac_str 0 [] (last_index P) =
              (Inr (edited, c, lg), li) \<and>
            factory_str (fst (apply_patch h P new_ref fac fac_str rs mid name)) =
              replace_placeholders P name edited) \<and>
         \<not> str_includes (factory_str (fst (apply_patch h P new_ref fac fac_str rs mid name)))
             (placeholders_self P) \<and>
         \<not> str_includes (factory_str (fst (apply_patch h P new_ref fac fac_str rs mid name)))
             (placeholders_functions P) \<and>
         \<not> str_includes (factory_str (fst (apply_patch h P new_ref fac fac_str rs mid name)))
             (placeholders_data P)"
proof -
  from apply_patch_success[OF ok] obtain edited c lg li where
    e: "replacement_loop rs 0 (length rs) mid fac_str 0 [] (last_index P) =
          (Inr (edited, c, lg), li)"
       "factory_str (fst (apply_patch h P new_ref fac fac_str rs mid name)) =
          replace_placeholders P name edited" by blast
  from replace_placeholders_clean[OF id36 idw nd, of edited] nS nF nD
  have "\<not> sublist (placeholders_self P) (replace_placeholders P name edited) \<and>
        \<not> sublist (placeholders_functions P) (replace_placeholders P name edited) \<and>
        \<not> sublist (placeholders_data P) (replace_placeholders P name edited)"
    by (simp add: str_includes_sublist)
  with e show ?thesis by (auto simp: str_includes_sublist)
qed

theorem placeholders_resolved_witness:
  "fn_ref (factory (fst (apply_patch example_host example_patcher (Compiled ''7'' 0)
       example_factory (fn_src example_factory) [rule_foo_data] ''7'' ''Demo''))) \<noteq>
     fn_ref example_factory \<and>
   factory_str (fst (apply_patch example_host example_patcher (Compiled ''7'' 0)
       example_factory (fn_src example_factory) [rule_foo_data] ''7'' ''Demo'')) =
     ''function a(){return window.WebpackPatcher.Registrars['' @ [CHR 0x22] @ ''Demo'' @
       [CHR 0x22] @ ''].data.count+bar(2)}'' \<and>
   \<not> str_includes (factory_str (fst (apply_patch example_host example_patcher (Compiled ''7'' 0)
       example_factory (fn_src example_factory) [rule_foo_data] ''7'' ''Demo'')))
     (placeholders_data example_patcher)"
proof -
  have ok: "fn_ref (factory (fst (apply_patch example_host example_patcher (Compiled ''7'' 0)
       example_factory (fn_src example_factory) [rule_foo_data] ''7'' ''Demo''))) \<noteq>
     fn_ref example_factory"
    by code_simp
  have str: "factory_str (fst (apply_patch example_host example_patcher (Compiled ''7'' 0)
       example_factory (fn_src example_factory) [rule_foo_data] ''7'' ''Demo'')) =
     ''function a(){return window.WebpackPatcher.Registrars['' @ [CHR 0x22] @ ''Demo'' @
       [CHR 0x22] @ ''].data.count+bar(2)}''"
    by code_simp
  have id36: "set (placeholder_id example_patcher) \<subseteq> set ''0123456789abcdefghijklmnopqrstuvwxyz''"
    by (simp add: example_id)
  have idw: "\<forall>u. u \<noteq> [] \<longrightarrow> suffix u (placeholder_id example_patcher) \<longrightarrow> \<not> prefix u ''window''"
    by (rule no_w_no_window_suffix) (simp add: example_id)
  have nd: "CHR ''$'' \<notin> set ''Demo''" by simp
  have nS: "\<not> str_includes ''Demo'' (placeholders_self example_patcher)" by code_simp
  have nF: "\<not> str_includes ''Demo'' (placeholders_functions example_patcher)" by code_simp
  have nD: "\<not> str_includes ''Demo'' (placeholders_data example_patcher)" by code_simp
  from placeholders_resolved[OF ok id36 idw nd nS nF nD] ok str show ?thesis by blast
qed

text \<open>
  Without the provisos the claim fails: the replacement text is not scanned again, so a
  registrar whose name contains a placeholder token leaves that token in the compiled
  source.
\<close>

theorem placeholder_left_by_registrar_name:
  "fn_ref (factory (fst (apply_patch example_host example_patcher (Compiled ''7'' 0)
       example_factory (fn_src example_factory) [rule_foo_data] ''7''
       (placeholders_data example_patcher)))) \<noteq> fn_ref example_factory \<and>
   str_includes (factory_str (fst (apply_patch example_host example_patcher (Compiled ''7'' 0)
       example_factory (fn_src example_factory) [rule_foo_data] ''7''
       (placeholders_data example_patcher))))
     (placeholders_data example_patcher)"
  by code_simp



section \<open>Registering\<close>

lemma get_property_simps:
  "obj key = Some v \<Longrightarrow> get_property obj key = Own v"
  "obj key = None \<Longrightarrow> key \<in> set Object_prototype_keys \<Longrightarrow> get_property obj key = Inherited"
  "obj key = None \<Longrightarrow> key \<notin> set Object_prototype_keys \<Longrightarrow> get_property obj key = Absent"
  by (simp_all add: get_property_def)

lemma register_patches_Inr:
  assumes "opt_name options = Some name" and "name \<noteq> []"
  shows "\<exists>P'. register_patches options ps ex P =
                Inr (get_property (window_Registrars P') name, P') \<and>
              window_Registrars P' =
                (case get_property (window_Registrars P) name of
                   Absent \<Rightarrow> (window_Registrars P)(name \<mapsto>
                     (case ex of Some r \<Rightarrow> r
                      | None \<Rightarrow> new_registrar_obj (Made_by_patcher name) options))
                 | Inherited \<Rightarrow> window_Registrars P
                 | Own r \<Rightarrow> window_Registrars P) \<and>
              registrars P' =
                (case get_property (window_Registrars P) name of
                   Absent \<Rightarrow> (registrars P)(name \<mapsto>
                     (case ex of Some r \<Rightarrow> r
                      | None \<Rightarrow> new_registrar_obj (Made_by_patcher name) options))
                 | Inherited \<Rightarrow> registrars P
                 | Own r \<Rightarrow> registrars P) \<and>
              patches P' = register_loop name ps (patches P)"
  using assms
  by (auto simp: register_patches_def Let_def hook_webpack_def split: property.splits)

text \<open>
  On the patcher itself, for a name that is not inherited: a call with a non-empty name
  returns a registrar object; if the name was not registered before and no object is handed
  in, that object is made from the data and functions of the options; no slot of
  \<open>Registrars\<close> that exists is changed; and every later call with the same name,
  whatever it brings, returns the same object.
\<close>

lemma register_patches_idempotent:
  assumes "opt_name options = Some name" and "name \<noteq> []"
      and "name \<notin> set Object_prototype_keys"
  shows "\<exists>r1 P1.
           register_patches options ps None P = Inr (Own r1, P1) \<and>
           window_Registrars P1 name = Some r1 \<and>
           (window_Registrars P name = None \<longrightarrow>
              r1 = new_registrar_obj (Made_by_patcher name) options) \<and>
           (\<forall>n r. window_Registrars P n = Some r \<longrightarrow> window_Registrars P1 n = Some r) \<and>
           (\<forall>options' ps' ex. opt_name options' = Some name \<longrightarrow>
              (\<exists>P2. register_patches options' ps' ex P1 = Inr (Own r1, P2) \<and>
                    window_Registrars P2 = window_Registrars P1 \<and>
                    registrars P2 = registrars P1))"
proof -
  from register_patches_Inr[OF assms(1,2), of ps None P] obtain P1 where
    P1: "register_patches options ps None P = Inr (get_property (window_Registrars P1) name, P1)"
        "window_Registrars P1 =
           (case get_property (window_Registrars P) name of
              Absent \<Rightarrow> (window_Registrars P)(name \<mapsto>
                new_registrar_obj (Made_by_patcher name) options)
            | Inherited \<Rightarrow> window_Registrars P
            | Own r \<Rightarrow> window_Registrars P)"
    by (auto cong: property.case_cong)
  from P1(2) assms(3) obtain r1 where r1: "window_Registrars P1 name = Some r1"
    by (cases "window_Registrars P name") (auto simp: get_property_def)
  then have own: "get_property (window_Registrars P1) name = Own r1"
    by (rule get_property_simps)
  have a: "window_Registrars P name = None \<longrightarrow>
             r1 = new_registrar_obj (Made_by_patcher name) options"
    using P1(2) r1 assms(3) by (auto simp: get_property_def)
  have b: "\<forall>n r. window_Registrars P n = Some r \<longrightarrow> window_Registrars P1 n = Some r"
    using P1(2) assms(3) by (cases "window_Registrars P name") (auto simp: get_property_def)
  have c: "\<exists>P2. register_patches options' ps' ex P1 = Inr (Own r1, P2) \<and>
                window_Registrars P2 = window_Registrars P1 \<and> registrars P2 = registrars P1"
    if "opt_name options' = Some name" for options' ps' ex
    using register_patches_Inr[OF that assms(2), of ps' ex P1] own by auto
  from P1(1) own r1 a b c show ?thesis by auto
qed

subsection \<open>Merging patches\<close>

lemma merge_existing_finds:
  "merge_existing p ps = Some ps' \<Longrightarrow> map p_find ps' = map p_find ps"
  by (induction ps arbitrary: ps') (auto split: if_splits)

lemma merge_existing_None:
  "merge_existing p ps = None \<Longrightarrow>
     list_all (\<lambda>e. \<not> strict_equals (p_find e) (p_find p)) ps"
  by (induction ps) (auto split: if_splits)

lemma merge_existing_no_match:
  "list_all (\<lambda>e. \<not> strict_equals (p_find e) (p_find p)) ps \<Longrightarrow> merge_existing p ps = None"
  by (induction ps) auto

lemma merge_existing_Some:
  assumes "ps = pre @ e # post"
      and "list_all (\<lambda>x. \<not> strict_equals (p_find x) (p_find p)) pre"
      and "strict_equals (p_find e) (p_find p)"
  shows "merge_existing p ps =
           Some (pre @ e\<lparr>p_replacements := p_replacements e @ p_replacements p\<rparr> # post)"
  using assms by (induction pre arbitrary: ps) auto

lemma distinct_finds_cong:
  "map p_find ps = map p_find ps' \<Longrightarrow> distinct_finds ps = distinct_finds ps'"
proof (induction ps arbitrary: ps')
  case Nil
  then show ?case by simp
next
  case (Cons a ps)
  then obtain b qs where ps': "ps' = b # qs" "p_find a = p_find b" "map p_find ps = map p_find qs"
    by (cases ps') auto
  have "list_all (\<lambda>e. \<not> strict_equals (p_find a) (p_find e)) ps =
        list_all (\<lambda>f. \<not> strict_equals (p_find a) f) (map p_find ps)"
    by (simp add: list_all_iff)
  also have "\<dots> = list_all (\<lambda>e. \<not> strict_equals (p_find a) (p_find e)) qs"
    by (simp add: ps'(3) list_all_iff)
  finally show ?case using Cons.IH[OF ps'(3)] ps' by simp
qed

lemma distinct_finds_snoc:
  "distinct_finds (ps @ [p]) =
     (distinct_finds ps \<and> list_all (\<lambda>e. \<not> strict_equals (p_find e) (p_find p)) ps)"
  by (induction ps) auto

lemma register_loop_distinct:
  "distinct_finds ps \<Longrightarrow> distinct_finds (register_loop name new_patches ps)"
proof (induction new_patches arbitrary: ps)
  case Nil
  then show ?case by simp
next
  case (Cons p rest)
  let ?p = "p\<lparr>p_registrar_name := name\<rparr>"
  show ?case
  proof (cases "merge_existing ?p ps")
    case None
    from merge_existing_None[OF None] Cons.prems have "distinct_finds (ps @ [?p])"
      by (simp add: distinct_finds_snoc)
    from Cons.IH[OF this] None show ?thesis by (simp add: Let_def)
  next
    case (Some ps')
    from distinct_finds_cong[OF merge_existing_finds[OF Some]] Cons.prems
    have "distinct_finds ps'" by simp
    from Cons.IH[OF this] Some show ?thesis by (simp add: Let_def)
  qed
qed

lemma register_patches_patches:
  "register_patches options new_patches ex P = Inr (r, P') \<Longrightarrow>
     \<exists>name. opt_name options = Some name \<and> name \<noteq> [] \<and>
            patches P' = register_loop name new_patches (patches P)"
  by (auto simp: register_patches_def Let_def hook_webpack_def
           split: option.splits if_splits property.splits)

lemma register_loop_append:
  "register_loop name (ps1 @ ps2) ps = register_loop name ps2 (register_loop name ps1 ps)"
  by (induction ps1 arbitrary: ps) (simp_all add: Let_def split: option.splits)

text \<open>
  C6 (as amended).  A call of \<open>register_patches\<close> takes the new patches one after the
  other: registering a list is registering its first part and then the rest.  A new patch
  is merged into the first registered patch whose \<open>find\<close> is strictly equal to its
  own (\<open>===\<close>: the same string, or the very same array or regular expression
  object): its replacements are appended there and no entry is added.  If there is no
  such patch, the new patch is added at the end, under the registrar's name.  So, if no
  two registered patches have strictly equal \<open>find\<close> values, this still holds after
  \<open>register_patches\<close>.
\<close>

theorem patches_merged_by_strict_equality:
  assumes inv: "distinct_finds (patches P)"
      and reg: "register_patches options new_patches ex P = Inr (r, P')"
  shows "distinct_finds (patches P') \<and>
         (\<forall>p pre e post.
            new_patches = [p] \<and> patches P = pre @ e # post \<and>
            list_all (\<lambda>x. \<not> strict_equals (p_find x) (p_find p)) pre \<and>
            strict_equals (p_find e) (p_find p) \<longrightarrow>
            patches P' = pre @ e\<lparr>p_replacements := p_replacements e @ p_replacements p\<rparr> # post) \<and>
         (\<forall>p name.
            new_patches = [p] \<and> opt_name options = Some name \<and>
            list_all (\<lambda>x. \<not> strict_equals (p_find x) (p_find p)) (patches P) \<longrightarrow>
            patches P' = patches P @ [p\<lparr>p_registrar_name := name\<rparr>]) \<and>
         (\<forall>ps1 ps2.
            new_patches = ps1 @ ps2 \<longrightarrow>
            (\<exists>r1 P1 r2 P2.
               register_patches options ps1 ex P = Inr (r1, P1) \<and>
               register_patches options ps2 ex P1 = Inr (r2, P2) \<and>
               patches P2 = patches P'))"
proof -
  from register_patches_patches[OF reg] obtain name where
    n: "opt_name options = Some name" "name \<noteq> []"
    and name: "patches P' = register_loop name new_patches (patches P)" by blast
  have a: "distinct_finds (patches P')"
    using register_loop_distinct[OF inv] name by simp
  have b: "patches P' = pre @ e\<lparr>p_replacements := p_replacements e @ p_replacements p\<rparr> # post"
    if "new_patches = [p]" "patches P = pre @ e # post"
       "list_all (\<lambda>x. \<not> strict_equals (p_find x) (p_find p)) pre"
       "strict_equals (p_find e) (p_find p)" for p pre e post
  proof -
    have "merge_existing (p\<lparr>p_registrar_name := name\<rparr>) (patches P) =
            Some (pre @ e\<lparr>p_replacements := p_replacements e @
                    p_replacements (p\<lparr>p_registrar_name := name\<rparr>)\<rparr> # post)"
      by (rule merge_existing_Some) (use that in simp_all)
    with name that(1) show ?thesis by (simp add: Let_def)
  qed
  have c: "patches P' = patches P @ [p\<lparr>p_registrar_name := name'\<rparr>]"
    if "new_patches = [p]" "opt_name options = Some name'"
       "list_all (\<lambda>x. \<not> strict_equals (p_find x) (p_find p)) (patches P)" for p name'
  proof -
    from that(2) n(1) have eq: "name' = name" by simp
    have "merge_existing (p\<lparr>p_registrar_name := name\<rparr>) (patches P) = None"
      by (rule merge_existing_no_match) (use that(3) in simp)
    with name that(1) eq show ?thesis by (simp add: Let_def)
  qed
  have d: "\<exists>r1 P1 r2 P2.
             register_patches options ps1 ex P = Inr (r1, P1) \<and>
             register_patches options ps2 ex P1 = Inr (r2, P2) \<and>
             patches P2 = patches P'"
    if "new_patches = ps1 @ ps2" for ps1 ps2
  proof -
    from register_patches_Inr[OF n, of ps1 ex P] obtain r1 P1 where
      P1: "register_patches options ps1 ex P = Inr (r1, P1)"
          "patches P1 = register_loop name ps1 (patches P)" by blast
    from register_patches_Inr[OF n, of ps2 ex P1] obtain r2 P2 where
      P2: "register_patches options ps2 ex P1 = Inr (r2, P2)"
          "patches P2 = register_loop name ps2 (patches P1)" by blast
    from P1(2) P2(2) name that have "patches P2 = patches P'"
      by (simp add: register_loop_append)
    with P1(1) P2(1) show ?thesis by blast
  qed
  from a b c d show ?thesis by blast
qed

lemma registered_patches: "patches registered_patcher = [patch_foo]"
  by (simp add: registered_patcher_def register_patches_def demo_options_def Let_def
        example_patcher_def initialize_def hook_webpack_def new_WebpackPatcher_def patch_foo_def
        get_property_def)

theorem patches_merged_by_strict_equality_witness:
  "(case register_patches other_options [patch_foo_again] None registered_patcher of
      Inl e \<Rightarrow> False
    | Inr (r, P') \<Rightarrow>
        distinct_finds (patches P') \<and>
        patches P' = [patch_foo\<lparr>p_replacements := [rule_foo_baz, rule_baz_qux]\<rparr>])"
proof -
  have n: "opt_name other_options = Some ''Demo''" by (simp add: other_options_def)
  from register_patches_Inr[OF n, of "[patch_foo_again]" None registered_patcher]
  obtain P' where P': "register_patches other_options [patch_foo_again] None registered_patcher =
                         Inr (get_property (window_Registrars P') ''Demo'', P')" by auto
  have inv: "distinct_finds (patches registered_patcher)"
    by (simp add: registered_patches)
  from patches_merged_by_strict_equality[OF inv P']
  have d: "distinct_finds (patches P')"
    by simp
  from patches_merged_by_strict_equality[OF inv P', THEN conjunct2, THEN conjunct1, rule_format,
         of patch_foo_again "[]" patch_foo "[]"]
  have "patches P' = [patch_foo\<lparr>p_replacements := p_replacements patch_foo @ p_replacements patch_foo_again\<rparr>]"
    by (simp add: registered_patches patch_foo_def patch_foo_again_def)
  then have "patches P' = [patch_foo\<lparr>p_replacements := [rule_foo_baz, rule_baz_qux]\<rparr>]"
    by (simp add: patch_foo_def patch_foo_again_def)
  with d P' show ?thesis by simp
qed

text \<open>
  Two consumers register a patch each; the \<open>find\<close> of both is an array holding the
  same string, and the arrays are two objects.  The patch list then holds two patches
  with the same \<open>find\<close> set.
\<close>

theorem identical_find_sets_kept_apart:
  "(case register_patches demo_options [patch_array_1] None example_patcher of
      Inl e \<Rightarrow> False
    | Inr (r1, P1) \<Rightarrow>
        (case register_patches second_options [patch_array_2] None P1 of
           Inl e \<Rightarrow> False
         | Inr (r2, P2) \<Rightarrow>
             length (patches P2) = 2 \<and>
             find_set (p_find (patches P2 ! 0)) = find_set (p_find (patches P2 ! 1))))"
  by (simp add: register_patches_def demo_options_def second_options_def Let_def
        example_patcher_def initialize_def hook_webpack_def new_WebpackPatcher_def
        patch_array_1_def patch_array_2_def get_property_def Object_prototype_keys_def)


section \<open>Events\<close>

lemma call_listeners_eq:
  "call_listeners event args ls P =
     P\<lparr>listener_calls := listener_calls P @ map (\<lambda>l. (l_ref l, event, args)) ls,
       logged := logged P @ listener_errors event args ls\<rparr>"
proof (induction ls arbitrary: P)
  case Nil
  then show ?case by (simp add: listener_errors_def)
next
  case (Cons l ls)
  show ?case
    by (cases "l_run l args")
       (simp_all add: Cons.IH call_listener_def listener_errors_def Let_def)
qed

lemma emit_event_eq:
  "emit_event event args P =
     (case get_property (own_listeners (event_listeners P)) event of
        Absent \<Rightarrow> Inr P
      | Inherited \<Rightarrow> Inl (TypeError ''this.event_listeners[event] is not iterable'')
      | Own ls \<Rightarrow>
          Inr (P\<lparr>listener_calls := listener_calls P @ map (\<lambda>l. (l_ref l, event, args)) ls,
                 logged := logged P @ listener_errors event args ls\<rparr>))"
  by (simp add: emit_event_def call_listeners_eq split: property.splits)

lemma emit_event_own:
  "own_listeners (event_listeners P) event = Some ls \<Longrightarrow>
     emit_event event args P =
       Inr (P\<lparr>listener_calls := listener_calls P @ map (\<lambda>l. (l_ref l, event, args)) ls,
              logged := logged P @ listener_errors event args ls\<rparr>)"
  by (simp add: emit_event_eq get_property_def)

text \<open>The patcher emits the three events of its table only; none of these calls throws.\<close>

lemma emit_webpack_detected:
  "emit_event ''webpack_detected'' args P =
     Inr (P\<lparr>listener_calls := listener_calls P @
               map (\<lambda>l. (l_ref l, ''webpack_detected'', args))
                 (on_webpack_detected (event_listeners P)),
            logged := logged P @
               listener_errors ''webpack_detected'' args
                 (on_webpack_detected (event_listeners P))\<rparr>)"
  by (rule emit_event_own) (simp add: own_listeners_def)

lemma emit_module_registered:
  "emit_event ''module_registered'' args P =
     Inr (P\<lparr>listener_calls := listener_calls P @
               map (\<lambda>l. (l_ref l, ''module_registered'', args))
                 (on_module_registered (event_listeners P)),
            logged := logged P @
               listener_errors ''module_registered'' args
                 (on_module_registered (event_listeners P))\<rparr>)"
  by (rule emit_event_own) (simp add: own_listeners_def)

lemma emit_module_patched:
  "emit_event ''module_patched'' args P =
     Inr (P\<lparr>listener_calls := listener_calls P @
               map (\<lambda>l. (l_ref l, ''module_patched'', args))
                 (on_module_patched (event_listeners P)),
            logged := logged P @
               listener_errors ''module_patched'' args
                 (on_module_patched (event_listeners P))\<rparr>)"
  by (rule emit_event_own) (simp add: own_listeners_def)

lemma main_state:
  "main cfg ident = (new_WebpackPatchRegistrar (Some (initialize cfg ident)), None)"
  by (simp add: main_def set_patcher_def new_WebpackPatchRegistrar_def flush_buffers_def)

text \<open>
  C7 (as amended).  A \<open>register\<close> call whose options lack a name is not absorbed:
  once the patcher is set, the call throws \<open>Error("Registrar name is required")\<close> to its
  caller, and this is the only error that \<open>register\<close> lets out; a call without a name
  that was buffered before makes \<open>set_patcher\<close> throw that error when the buffer is
  flushed.  When one of the events of the table is emitted every subscribed listener is
  called, in order; a listener that throws is logged and the listeners after it are still
  called.
\<close>

lemma register_patches_Inl_iff:
  "register_patches options ps ex P = Inl e \<longleftrightarrow>
     name_missing options \<and> e = Error ''Registrar name is required''"
  by (auto simp: register_patches_def name_missing_def Let_def split: option.splits)

lemma flush_patch_buffer_nameless:
  "\<exists>b\<in>set bs. name_missing (b_options b) \<Longrightarrow>
     snd (flush_patch_buffer bs P) = Some (Error ''Registrar name is required'')"
proof (induction bs arbitrary: P)
  case Nil
  then show ?case by simp
next
  case (Cons b bs)
  show ?case
  proof (cases "register_patches (b_options b) (b_patches b) (Some (b_registrar b)) P")
    case (Inl x)
    with register_patches_Inl_iff[of "b_options b" "b_patches b" "Some (b_registrar b)" P x]
    show ?thesis by simp
  next
    case (Inr x)
    obtain r P1 where x: "x = (r, P1)" by (cases x)
    from Inr register_patches_Inl_iff[of "b_options b" "b_patches b" "Some (b_registrar b)" P
           "Error ''Registrar name is required''"]
    have "\<not> name_missing (b_options b)" by auto
    with Cons.prems have "\<exists>b\<in>set bs. name_missing (b_options b)" by auto
    from Cons.IH[OF this, of P1] Inr x show ?thesis by simp
  qed
qed

theorem only_a_missing_name_throws:
  "(registrar_register_patches options ps R = Inl e \<longleftrightarrow>
      pr_patcher R \<noteq> None \<and> name_missing options \<and> e = Error ''Registrar name is required'') \<and>
   (pr_patcher R = None \<and> \<not> is_flushing R \<and>
    (\<exists>b\<in>set (patch_buffer R). name_missing (b_options b)) \<longrightarrow>
      snd (set_patcher P R) = Some (Error ''Registrar name is required'')) \<and>
   (own_listeners (event_listeners P) event = Some ls \<longrightarrow>
      emit_event event args P =
        Inr (P\<lparr>listener_calls := listener_calls P @ map (\<lambda>l. (l_ref l, event, args)) ls,
               logged := logged P @ listener_errors event args ls\<rparr>))"
proof (intro conjI)
  show "registrar_register_patches options ps R = Inl e \<longleftrightarrow>
          pr_patcher R \<noteq> None \<and> name_missing options \<and> e = Error ''Registrar name is required''"
  proof (cases "pr_patcher R")
    case None
    then show ?thesis by (simp add: registrar_register_patches_def Let_def)
  next
    case (Some Q)
    show ?thesis
    proof (cases "register_patches options ps None Q")
      case (Inl x)
      with Some register_patches_Inl_iff[of options ps None Q x] show ?thesis
        by (auto simp: registrar_register_patches_def)
    next
      case (Inr x)
      obtain r Q' where "x = (r, Q')" by (cases x)
      with Inr Some register_patches_Inl_iff[of options ps None Q e] show ?thesis
        by (auto simp: registrar_register_patches_def)
    qed
  qed
next
  show "pr_patcher R = None \<and> \<not> is_flushing R \<and>
        (\<exists>b\<in>set (patch_buffer R). name_missing (b_options b)) \<longrightarrow>
          snd (set_patcher P R) = Some (Error ''Registrar name is required'')"
  proof
    assume a: "pr_patcher R = None \<and> \<not> is_flushing R \<and>
               (\<exists>b\<in>set (patch_buffer R). name_missing (b_options b))"
    obtain P1 x where f: "flush_patch_buffer (patch_buffer R) P = (P1, x)"
      by (cases "flush_patch_buffer (patch_buffer R) P")
    with flush_patch_buffer_nameless[of "patch_buffer R" P] a
    have "x = Some (Error ''Registrar name is required'')" by simp
    with f a show "snd (set_patcher P R) = Some (Error ''Registrar name is required'')"
      by (simp add: set_patcher_def flush_buffers_def)
  qed
next
  show "own_listeners (event_listeners P) event = Some ls \<longrightarrow>
      emit_event event args P =
        Inr (P\<lparr>listener_calls := listener_calls P @ map (\<lambda>l. (l_ref l, event, args)) ls,
               logged := logged P @ listener_errors event args ls\<rparr>)"
    by (simp add: emit_event_own)
qed

theorem only_a_missing_name_throws_witness:
  "registrar_register_patches demo_options [patch_foo] (fst (main default_options ''k3x9q2ab'')) \<noteq>
     Inl (Error ''Registrar name is required'') \<and>
   emit_event ''module_patched''
       (Module_patched_args ''7'' example_factory example_factory) two_listeners =
     Inr (two_listeners\<lparr>
       listener_calls :=
         [(2, ''module_patched'', Module_patched_args ''7'' example_factory example_factory),
          (1, ''module_patched'', Module_patched_args ''7'' example_factory example_factory)],
       logged := [Error_event_listener ''module_patched'' (Thrown ''boom'')]\<rparr>)"
proof -
  have n: "\<not> name_missing demo_options" by (simp add: name_missing_def demo_options_def)
  from only_a_missing_name_throws[of demo_options "[patch_foo]"
         "fst (main default_options ''k3x9q2ab'')" "Error ''Registrar name is required''"] n
  have a: "registrar_register_patches demo_options [patch_foo]
             (fst (main default_options ''k3x9q2ab'')) \<noteq>
           Inl (Error ''Registrar name is required'')" by blast
  have l: "own_listeners (event_listeners two_listeners) ''module_patched'' =
             Some [throwing_listener, quiet_listener]"
    "listener_calls two_listeners = []" "logged two_listeners = []"
    by (simp_all add: two_listeners_def own_listeners_def example_patcher_def initialize_def
          hook_webpack_def new_WebpackPatcher_def)
  from only_a_missing_name_throws[THEN conjunct2, THEN conjunct2, rule_format, OF l(1),
         of "Module_patched_args ''7'' example_factory example_factory"]
  show ?thesis using a
    by (simp add: l listener_errors_def throwing_listener_def quiet_listener_def)
qed

text \<open>
  With the patcher set, as \<open>main\<close> leaves it, a \<open>register\<close> call without a name
  throws to the caller.
\<close>

theorem register_without_name_throws:
  "registrar_register_patches nameless_options [] (fst (main default_options ''k3x9q2ab'')) =
     Inl (Error ''Registrar name is required'')"
  by (simp add: registrar_register_patches_def main_state new_WebpackPatchRegistrar_def
        register_patches_def nameless_options_def)

section \<open>The states of a run\<close>

lemma initialize_invariant: "patcher_invariant (initialize cfg ident)"
  by (auto simp: patcher_invariant_def initialize_def hook_webpack_def new_WebpackPatcher_def)

lemma add_event_listener_frame:
  assumes "add_event_listener event cb P = Inr P'"
  shows "hooked P' = hooked P \<and> webpack_require P' = webpack_require P \<and>
         webpack_detected P' = webpack_detected P \<and> module_factories P' = module_factories P \<and>
         webpack_cache P' = webpack_cache P \<and> cache_detected P' = cache_detected P \<and>
         filter_func P' = filter_func P \<and> patches P' = patches P \<and>
         window_Registrars P' = window_Registrars P \<and> registrars P' = registrars P"
  using assms by (auto simp: add_event_listener_def split: property.splits)

lemma remove_event_listener_frame:
  assumes "remove_event_listener event cb P = Inr P'"
  shows "hooked P' = hooked P \<and> webpack_require P' = webpack_require P \<and>
         webpack_detected P' = webpack_detected P \<and> module_factories P' = module_factories P \<and>
         webpack_cache P' = webpack_cache P \<and> cache_detected P' = cache_detected P \<and>
         filter_func P' = filter_func P \<and> patches P' = patches P \<and>
         window_Registrars P' = window_Registrars P \<and> registrars P' = registrars P"
  using assms by (auto simp: remove_event_listener_def split: property.splits)

lemma register_patches_frame:
  assumes "register_patches options ps ex P = Inr (r, P')"
  shows "hooked P' \<and> event_listeners P' = event_listeners P \<and>
         webpack_require P' = webpack_require P \<and> module_factories P' = module_factories P \<and>
         webpack_cache P' = webpack_cache P \<and> filter_func P' = filter_func P \<and>
         (hooked P \<longrightarrow> webpack_detected P' = webpack_detected P \<and>
                       cache_detected P' = cache_detected P)"
  using assms
  by (auto simp: register_patches_def Let_def hook_webpack_def
           split: option.splits if_splits property.splits)

lemma register_patches_invariant:
  "patcher_invariant P \<Longrightarrow> register_patches options ps ex P = Inr (r, P') \<Longrightarrow>
     patcher_invariant P'"
  using register_patches_frame[of options ps ex P r P']
  by (simp add: patcher_invariant_def)

lemma cache_setter_invariant:
  "patcher_invariant P \<Longrightarrow> patcher_invariant (cache_setter this st c P)"
  by (auto simp: patcher_invariant_def cache_setter_def split: option.splits)

lemma cache_entries_changed_invariant:
  "patcher_invariant P \<Longrightarrow> patcher_invariant (cache_entries_changed entries P)"
  by (auto simp: patcher_invariant_def cache_entries_changed_def split: option.splits)

lemma call_on_detect_eq:
  "call_on_detect this ids P =
     P\<lparr>logged := logged P @
         (case on_detect P of
            None \<Rightarrow> []
          | Some f \<Rightarrow> (case f this ids of None \<Rightarrow> [] | Some e \<Rightarrow> [Error_on_detect e]))\<rparr>"
  by (simp add: call_on_detect_def split: option.splits)

lemma modules_setter_eq:
  "modules_setter this st mf P =
     Inr (if accepts_modules P this st
          then P\<lparr>webpack_detected := True, webpack_require := Some this,
                 listener_calls := listener_calls P @
                   map (\<lambda>l. (l_ref l, ''webpack_detected'', Webpack_detected_args this (map fst mf)))
                     (on_webpack_detected (event_listeners P)),
                 logged := logged P @
                   listener_errors ''webpack_detected'' (Webpack_detected_args this (map fst mf))
                     (on_webpack_detected (event_listeners P)) @
                   (case on_detect P of
                      None \<Rightarrow> []
                    | Some f \<Rightarrow>
                        (case f this (map fst mf) of None \<Rightarrow> [] | Some e \<Rightarrow> [Error_on_detect e])),
                 module_factories :=
                   Some (map_of (map (\<lambda>(module_id, fac). (module_id, Proxy fac)) mf))\<rparr>
          else P)"
  by (auto simp: modules_setter_def accepts_modules_def emit_webpack_detected call_on_detect_eq
        Let_def split: option.splits)

lemma modules_setter_invariant:
  "patcher_invariant P \<Longrightarrow> modules_setter this st mf P = Inr P' \<Longrightarrow> patcher_invariant P'"
  by (auto simp: modules_setter_eq patcher_invariant_def split: if_splits)

lemma factories_set_eq:
  "factories_set mid fac P =
     Inr (P\<lparr>listener_calls := listener_calls P @
               map (\<lambda>l. (l_ref l, ''module_registered'', Module_registered_args mid fac))
                 (on_module_registered (event_listeners P)),
            logged := logged P @
               listener_errors ''module_registered'' (Module_registered_args mid fac)
                 (on_module_registered (event_listeners P)),
            module_factories :=
               map_option (\<lambda>mf. mf(mid \<mapsto> Proxy fac)) (module_factories P)\<rparr>)"
  by (simp add: factories_set_def emit_module_registered)

lemma factories_set_invariant:
  "patcher_invariant P \<Longrightarrow> factories_set mid fac P = Inr P' \<Longrightarrow> patcher_invariant P'"
  by (auto simp: factories_set_eq patcher_invariant_def)

lemma get_or_patch_factory_frame:
  assumes "get_or_patch_factory h mid fac P = Inr (f, P')"
  shows "hooked P' = hooked P \<and> event_listeners P' = event_listeners P \<and>
         webpack_require P' = webpack_require P \<and> webpack_detected P' = webpack_detected P \<and>
         webpack_cache P' = webpack_cache P \<and> cache_detected P' = cache_detected P \<and>
         (module_factories P' = None) = (module_factories P = None) \<and>
         filter_func P' = filter_func P \<and>
         patches P' = patches P \<and> window_Registrars P' = window_Registrars P \<and>
         registrars P' = registrars P"
  using assms
  by (auto simp: get_or_patch_factory_def get_factory_string_def emit_module_patched Let_def
           split: if_splits prod.splits option.splits)

lemma get_or_patch_factory_invariant:
  "patcher_invariant P \<Longrightarrow> get_or_patch_factory h mid fac P = Inr (f, P') \<Longrightarrow>
     patcher_invariant P'"
  using get_or_patch_factory_frame[of h mid fac P f P']
  by (simp add: patcher_invariant_def)

lemma on_patcher_cases:
  assumes "pr_patcher R = Some P"
  obtains "on_patcher f R = R"
  | P' where "f P = Inr P'" "on_patcher f R = R\<lparr>pr_patcher := Some P'\<rparr>"
  using assms by (cases "f P") (auto simp: on_patcher_def)

text \<open>
  A step of the page leaves the registrar as it is (the operation threw or did nothing) or
  puts a patcher in it that the operation returned.
\<close>

lemma page_step_cases:
  assumes "pr_patcher R = Some P"
  shows "page_step h R ev = R \<or>
         (\<exists>P'. page_step h R ev = R\<lparr>pr_patcher := Some P'\<rparr> \<and>
            (case ev of
               Register options ps \<Rightarrow> \<exists>r. register_patches options ps None P = Inr (r, P')
             | Add_event_listener e cb \<Rightarrow> add_event_listener e cb P = Inr P'
             | Remove_event_listener e cb \<Rightarrow> remove_event_listener e cb P = Inr P'
             | Cache_slot_write this st c \<Rightarrow> P' = cache_setter this st c P
             | Cache_entries_write entries \<Rightarrow> P' = cache_entries_changed entries P
             | Modules_slot_write this st mf \<Rightarrow> modules_setter this st mf P = Inr P'
             | Factory_write mid fac \<Rightarrow> factories_set mid fac P = Inr P'
             | Factory_proxy_call mid fac \<Rightarrow>
                 module_factories P \<noteq> None \<and>
                 (\<exists>f. get_or_patch_factory h mid fac P = Inr (f, P'))))"
proof (cases ev)
  case (Register options ps)
  show ?thesis
  proof (cases "register_patches options ps None P")
    case (Inl e)
    with Register assms show ?thesis by (simp add: registrar_register_patches_def)
  next
    case (Inr x)
    obtain r P' where "x = (r, P')" by (cases x)
    with Inr Register assms show ?thesis by (simp add: registrar_register_patches_def)
  qed
next
  case (Add_event_listener e cb)
  with assms show ?thesis
    by (cases "add_event_listener e cb P") (simp_all add: registrar_add_event_listener_def)
next
  case (Remove_event_listener e cb)
  with assms show ?thesis
    by (cases "remove_event_listener e cb P") (simp_all add: registrar_remove_event_listener_def)
next
  case (Cache_slot_write this st c)
  with assms show ?thesis by (simp add: on_patcher_def)
next
  case (Cache_entries_write entries)
  with assms show ?thesis by (simp add: on_patcher_def)
next
  case (Modules_slot_write this st mf)
  with assms show ?thesis
    by (cases "modules_setter this st mf P") (simp_all add: on_patcher_def)
next
  case (Factory_write mid fac)
  with assms show ?thesis
    by (cases "factories_set mid fac P") (simp_all add: on_patcher_def)
next
  case (Factory_proxy_call mid fac)
  show ?thesis
  proof (cases "module_factories P")
    case None
    with Factory_proxy_call assms have "page_step h R ev = R\<lparr>pr_patcher := Some P\<rparr>"
      by (simp add: on_patcher_def)
    with assms show ?thesis by simp
  next
    case (Some mf)
    show ?thesis
    proof (cases "get_or_patch_factory h mid fac P")
      case (Inl e)
      with Some Factory_proxy_call assms show ?thesis
        by (simp add: on_patcher_def factory_proxy_apply_def)
    next
      case (Inr x)
      obtain f P' where "x = (f, P')" by (cases x)
      with Inr Some Factory_proxy_call assms show ?thesis
        by (simp add: on_patcher_def factory_proxy_apply_def)
    qed
  qed
qed


lemma page_step_invariant:
  assumes "pr_patcher R = Some P" and "patcher_invariant P"
  shows "\<exists>P'. pr_patcher (page_step h R ev) = Some P' \<and> patcher_invariant P'"
proof -
  from page_step_cases[OF assms(1), of h ev]
  consider "page_step h R ev = R"
    | P' where "page_step h R ev = R\<lparr>pr_patcher := Some P'\<rparr>"
        "case ev of
           Register options ps \<Rightarrow> \<exists>r. register_patches options ps None P = Inr (r, P')
         | Add_event_listener e cb \<Rightarrow> add_event_listener e cb P = Inr P'
         | Remove_event_listener e cb \<Rightarrow> remove_event_listener e cb P = Inr P'
         | Cache_slot_write this st c \<Rightarrow> P' = cache_setter this st c P
         | Cache_entries_write entries \<Rightarrow> P' = cache_entries_changed entries P
         | Modules_slot_write this st mf \<Rightarrow> modules_setter this st mf P = Inr P'
         | Factory_write mid fac \<Rightarrow> factories_set mid fac P = Inr P'
         | Factory_proxy_call mid fac \<Rightarrow>
             module_factories P \<noteq> None \<and>
             (\<exists>f. get_or_patch_factory h mid fac P = Inr (f, P'))"
    by blast
  then show ?thesis
  proof cases
    case 1
    with assms show ?thesis by simp
  next
    case 2
    have "patcher_invariant P'"
    proof (cases ev)
      case (Register options ps)
      with 2(2) assms(2) register_patches_invariant show ?thesis by auto
    next
      case (Add_event_listener e cb)
      with 2(2) assms(2) add_event_listener_frame[of e cb P P'] show ?thesis
        by (simp add: patcher_invariant_def)
    next
      case (Remove_event_listener e cb)
      with 2(2) assms(2) remove_event_listener_frame[of e cb P P'] show ?thesis
        by (simp add: patcher_invariant_def)
    next
      case (Cache_slot_write this st c)
      with 2(2) assms(2) cache_setter_invariant show ?thesis by simp
    next
      case (Cache_entries_write entries)
      with 2(2) assms(2) cache_entries_changed_invariant show ?thesis by simp
    next
      case (Modules_slot_write this st mf)
      with 2(2) assms(2) modules_setter_invariant show ?thesis by simp
    next
      case (Factory_write mid fac)
      with 2(2) assms(2) factories_set_invariant show ?thesis by simp
    next
      case (Factory_proxy_call mid fac)
      with 2(2) assms(2) get_or_patch_factory_invariant show ?thesis by auto
    qed
    with 2(1) show ?thesis by simp
  qed
qed

lemma run_invariant:
  assumes "pr_patcher R = Some P" and "patcher_invariant P"
  shows "\<exists>P'. pr_patcher (run h es R) = Some P' \<and> patcher_invariant P'"
  using assms
proof (induction es arbitrary: R P)
  case Nil
  then show ?case by (simp add: run_def)
next
  case (Cons ev es)
  from page_step_invariant[OF Cons.prems, of h ev] obtain P1 where
    "pr_patcher (page_step h R ev) = Some P1" "patcher_invariant P1" by blast
  from Cons.IH[OF this] show ?case by (simp add: run_def)
qed

lemma reachable_invariant:
  "\<exists>P. pr_patcher (run h es (fst (main cfg ident))) = Some P \<and> patcher_invariant P"
  by (rule run_invariant[of _ "initialize cfg ident"])
     (simp_all add: main_state new_WebpackPatchRegistrar_def initialize_invariant)

lemma example_patcher_main:
  "pr_patcher (run h [] (fst (main default_options ''k3x9q2ab''))) = Some example_patcher"
  by (simp add: run_def main_state new_WebpackPatchRegistrar_def example_patcher_def
        default_options_def)

section \<open>Event names that are not in the table\<close>

text \<open>
  For a name that is neither one of the three events nor a member that every object
  inherits, \<open>add_event_listener\<close> only logs the warning and leaves the listener table
  as it is, \<open>remove_event_listener\<close> does nothing, and emitting calls no listener.
\<close>

lemma unknown_event_absent:
  assumes "event \<notin> known_events" and "event \<notin> set Object_prototype_keys"
  shows "get_property (own_listeners (event_listeners P)) event = Absent"
  using assms by (simp add: get_property_def own_listeners_def known_events_def)

lemma unknown_event_warned:
  assumes "event \<notin> known_events" and "event \<notin> set Object_prototype_keys"
  shows "add_event_listener event callback P =
           Inr (P\<lparr>logged := logged P @ [Warn_unknown_event event]\<rparr>) \<and>
         remove_event_listener event callback P = Inr P \<and>
         emit_event event args P = Inr P"
  using unknown_event_absent[OF assms, of P]
  by (simp add: add_event_listener_def remove_event_listener_def emit_event_def)

text \<open>
  C10.  \<open>toString\<close> is not one of the three events, and the listener table, a plain
  object, inherits a member of that name.  The guard \<open>!this.event_listeners[event]\<close>
  does not hold for it, no warning is logged, and \<open>add_event_listener\<close> throws a
  \<open>TypeError\<close>, which the public \<open>addEventListener\<close> passes on to its caller;
  so does \<open>remove_event_listener\<close>.
\<close>

theorem inherited_event_name_throws:
  "''toString'' \<notin> known_events \<and>
   add_event_listener ''toString'' quiet_listener example_patcher =
     Inl (TypeError ''this.event_listeners[event].push is not a function'') \<and>
   registrar_add_event_listener ''toString'' quiet_listener
       (fst (main default_options ''k3x9q2ab'')) =
     Inl (TypeError ''this.event_listeners[event].push is not a function'') \<and>
   registrar_remove_event_listener ''toString'' quiet_listener
       (fst (main default_options ''k3x9q2ab'')) =
     Inl (TypeError ''this.event_listeners[event].indexOf is not a function'')"
  by (simp add: known_events_def add_event_listener_def remove_event_listener_def
        registrar_add_event_listener_def registrar_remove_event_listener_def main_state
        new_WebpackPatchRegistrar_def get_property_def own_listeners_def
        Object_prototype_keys_def)


section \<open>The read-only accessors\<close>

lemma cache_setter_cases:
  "cache_setter this st c P =
     (if accepts_cache P this st then P\<lparr>cache_detected := True, webpack_cache := Some c\<rparr> else P)"
  by (auto simp: accepts_cache_def cache_setter_def split: option.splits)

lemma page_step_keeps:
  assumes R: "pr_patcher R = Some P"
      and ev: "\<forall>this st mf. ev = Modules_slot_write this st mf \<longrightarrow> \<not> accepts_modules P this st"
  shows "\<exists>P'. pr_patcher (page_step h R ev) = Some P' \<and>
              webpack_require P' = webpack_require P \<and>
              (module_factories P' = None) = (module_factories P = None)"
proof -
  from page_step_cases[OF R, of h ev]
  consider "page_step h R ev = R"
    | P' where "page_step h R ev = R\<lparr>pr_patcher := Some P'\<rparr>"
        "case ev of
           Register options ps \<Rightarrow> \<exists>r. register_patches options ps None P = Inr (r, P')
         | Add_event_listener e cb \<Rightarrow> add_event_listener e cb P = Inr P'
         | Remove_event_listener e cb \<Rightarrow> remove_event_listener e cb P = Inr P'
         | Cache_slot_write this st c \<Rightarrow> P' = cache_setter this st c P
         | Cache_entries_write entries \<Rightarrow> P' = cache_entries_changed entries P
         | Modules_slot_write this st mf \<Rightarrow> modules_setter this st mf P = Inr P'
         | Factory_write mid fac \<Rightarrow> factories_set mid fac P = Inr P'
         | Factory_proxy_call mid fac \<Rightarrow>
             module_factories P \<noteq> None \<and>
             (\<exists>f. get_or_patch_factory h mid fac P = Inr (f, P'))"
    by blast
  then show ?thesis
  proof cases
    case 1
    with R show ?thesis by simp
  next
    case 2
    have "webpack_require P' = webpack_require P \<and>
          (module_factories P' = None) = (module_factories P = None)"
    proof (cases ev)
      case (Register options ps)
      with 2(2) obtain r where "register_patches options ps None P = Inr (r, P')" by auto
      from register_patches_frame[OF this] show ?thesis by simp
    next
      case (Add_event_listener e cb)
      with 2(2) add_event_listener_frame[of e cb P P'] show ?thesis by simp
    next
      case (Remove_event_listener e cb)
      with 2(2) remove_event_listener_frame[of e cb P P'] show ?thesis by simp
    next
      case (Cache_slot_write this st c)
      with 2(2) show ?thesis by (simp add: cache_setter_cases)
    next
      case (Cache_entries_write entries)
      with 2(2) show ?thesis by (simp add: cache_entries_changed_def split: option.splits)
    next
      case (Modules_slot_write this st mf)
      with ev have "\<not> accepts_modules P this st" by simp
      with Modules_slot_write 2(2) show ?thesis by (simp add: modules_setter_eq)
    next
      case (Factory_write mid fac)
      with 2(2) show ?thesis by (auto simp: factories_set_eq)
    next
      case (Factory_proxy_call mid fac)
      with 2(2) obtain f where "get_or_patch_factory h mid fac P = Inr (f, P')" by auto
      from get_or_patch_factory_frame[OF this] show ?thesis by simp
    qed
    with 2(1) show ?thesis by simp
  qed
qed

text \<open>
  What a step does to the cache that the patcher holds: a write to the cache slot that
  the setter accepts makes it the object written, a change of the entries of a detected
  cache shows, and nothing else touches it.
\<close>

lemma page_step_cache:
  assumes R: "pr_patcher R = Some P" and inv: "patcher_invariant P"
  shows "\<exists>P'. pr_patcher (page_step h R ev) = Some P' \<and>
           (case ev of
              Cache_slot_write this st c \<Rightarrow>
                (if accepts_cache P this st
                 then cache_detected P' \<and> webpack_cache P' = Some c
                 else cache_detected P' = cache_detected P \<and>
                      webpack_cache P' = webpack_cache P)
            | Cache_entries_write entries \<Rightarrow>
                cache_detected P' = cache_detected P \<and>
                webpack_cache P' = (if cache_detected P then Some entries else None)
            | _ \<Rightarrow> cache_detected P' = cache_detected P \<and> webpack_cache P' = webpack_cache P)"
proof -
  from inv have hk: "hooked P" and wc: "(webpack_cache P = None) = (\<not> cache_detected P)"
    by (simp_all add: patcher_invariant_def)
  from page_step_cases[OF R, of h ev]
  consider "page_step h R ev = R"
    | P' where "page_step h R ev = R\<lparr>pr_patcher := Some P'\<rparr>"
        "case ev of
           Register options ps \<Rightarrow> \<exists>r. register_patches options ps None P = Inr (r, P')
         | Add_event_listener e cb \<Rightarrow> add_event_listener e cb P = Inr P'
         | Remove_event_listener e cb \<Rightarrow> remove_event_listener e cb P = Inr P'
         | Cache_slot_write this st c \<Rightarrow> P' = cache_setter this st c P
         | Cache_entries_write entries \<Rightarrow> P' = cache_entries_changed entries P
         | Modules_slot_write this st mf \<Rightarrow> modules_setter this st mf P = Inr P'
         | Factory_write mid fac \<Rightarrow> factories_set mid fac P = Inr P'
         | Factory_proxy_call mid fac \<Rightarrow>
             module_factories P \<noteq> None \<and>
             (\<exists>f. get_or_patch_factory h mid fac P = Inr (f, P'))"
    by blast
  then show ?thesis
  proof cases
    case 1
    show ?thesis
    proof (cases ev)
      case (Cache_slot_write this st c)
      with R have "page_step h R ev = R\<lparr>pr_patcher := Some (cache_setter this st c P)\<rparr>"
        by (simp add: on_patcher_def)
      then show ?thesis using Cache_slot_write by (simp add: cache_setter_cases)
    next
      case (Cache_entries_write entries)
      with R have "page_step h R ev = R\<lparr>pr_patcher := Some (cache_entries_changed entries P)\<rparr>"
        by (simp add: on_patcher_def)
      then show ?thesis using Cache_entries_write wc
        by (auto simp: cache_entries_changed_def split: option.splits)
    qed (use 1 R in simp_all)
  next
    case 2
    have "case ev of
              Cache_slot_write this st c \<Rightarrow>
                (if accepts_cache P this st
                 then cache_detected P' \<and> webpack_cache P' = Some c
                 else cache_detected P' = cache_detected P \<and>
                      webpack_cache P' = webpack_cache P)
            | Cache_entries_write entries \<Rightarrow>
                cache_detected P' = cache_detected P \<and>
                webpack_cache P' = (if cache_detected P then Some entries else None)
            | _ \<Rightarrow> cache_detected P' = cache_detected P \<and> webpack_cache P' = webpack_cache P"
    proof (cases ev)
      case (Register options ps)
      with 2(2) obtain r where "register_patches options ps None P = Inr (r, P')" by auto
      from register_patches_frame[OF this] hk Register show ?thesis by simp
    next
      case (Add_event_listener e cb)
      with 2(2) add_event_listener_frame[of e cb P P'] show ?thesis by simp
    next
      case (Remove_event_listener e cb)
      with 2(2) remove_event_listener_frame[of e cb P P'] show ?thesis by simp
    next
      case (Cache_slot_write this st c)
      with 2(2) show ?thesis by (simp add: cache_setter_cases)
    next
      case (Cache_entries_write entries)
      with 2(2) wc show ?thesis
        by (auto simp: cache_entries_changed_def split: option.splits)
    next
      case (Modules_slot_write this st mf)
      with 2(2) show ?thesis by (auto simp: modules_setter_eq split: if_splits)
    next
      case (Factory_write mid fac)
      with 2(2) show ?thesis by (auto simp: factories_set_eq)
    next
      case (Factory_proxy_call mid fac)
      with 2(2) obtain f where "get_or_patch_factory h mid fac P = Inr (f, P')" by auto
      from get_or_patch_factory_frame[OF this] Factory_proxy_call show ?thesis by simp
    qed
    with 2(1) show ?thesis by simp
  qed
qed

lemma main_not_detected:
  "pr_patcher (fst (main cfg ident)) = Some P \<Longrightarrow> \<not> cache_detected P \<and> \<not> webpack_detected P"
  by (auto simp: main_state new_WebpackPatchRegistrar_def initialize_def hook_webpack_def
        new_WebpackPatcher_def)

text \<open>
  C8 (as amended).  In every state of a run: \<open>webpackRequire\<close> and
  \<open>moduleFactories\<close> are \<open>null\<close> as long as the runtime is not detected and are
  not \<open>null\<close> afterwards; a write to the modules slot that the setter accepts makes
  them the function written to and the collection written (its factories wrapped), and no
  other step changes \<open>webpackRequire\<close> or whether \<open>moduleFactories\<close> is
  \<open>null\<close>.  \<open>moduleCache\<close> is never \<open>null\<close>: it is always the wrapper object
  of the registrar.  The cache counts as detected from the first write to the cache slot
  that the setter accepts (it is not when \<open>main\<close> returns, and no other step changes
  that).  As long as it is not detected the wrapper's \<open>getAll\<close> and \<open>get\<close>
  return \<open>null\<close>; once it is, \<open>getAll\<close> returns the entries of the cache and
  \<open>get\<close> looks the module id up in it: the module object, \<open>null\<close> for no entry
  or a falsy one, an inherited member for a name that every object inherits.  The accepted
  write makes the cache the object written, a change of its entries shows in both, and no
  other step changes what they return.
\<close>

theorem accessors_until_detection:
  fixes h es cfg ident
  defines "R \<equiv> run h es (fst (main cfg ident))"
  shows "moduleCache R = Webpack_cache_wrapper \<and>
         (\<not> is_webpack_detected R \<longrightarrow> webpackRequire R = Null \<and> moduleFactories R = Null) \<and>
         (is_webpack_detected R \<longrightarrow> webpackRequire R \<noteq> Null \<and> moduleFactories R \<noteq> Null) \<and>
         (\<forall>P this st mf. pr_patcher R = Some P \<and> accepts_modules P this st \<longrightarrow>
            webpackRequire (page_step h R (Modules_slot_write this st mf)) = Function_value this \<and>
            moduleFactories (page_step h R (Modules_slot_write this st mf)) =
              Factories_value (map_of (map (\<lambda>(module_id, fac). (module_id, Proxy fac)) mf))) \<and>
         (\<forall>P ev. pr_patcher R = Some P \<and>
            (\<forall>this st mf. ev = Modules_slot_write this st mf \<longrightarrow> \<not> accepts_modules P this st) \<longrightarrow>
            webpackRequire (page_step h R ev) = webpackRequire R \<and>
            (moduleFactories (page_step h R ev) = Null) = (moduleFactories R = Null)) \<and>
         (\<exists>P. pr_patcher R = Some P \<and>
            (es = [] \<longrightarrow> \<not> cache_detected P) \<and>
            (\<not> cache_detected P \<longrightarrow>
               Webpack_cache_getAll R = Null \<and> (\<forall>module_id. Webpack_cache_get module_id R = Null)) \<and>
            (cache_detected P \<longrightarrow>
               (\<exists>c. Webpack_cache_getAll R = Cache_value c \<and>
                    (\<forall>module_id. Webpack_cache_get module_id R =
                       (case get_property c module_id of
                          Own (Module_object m) \<Rightarrow> Module_value m
                        | Own Falsy_value \<Rightarrow> Null
                        | Inherited \<Rightarrow> Inherited_member
                        | Absent \<Rightarrow> Null)))) \<and>
            (\<forall>ev. \<exists>P'. pr_patcher (page_step h R ev) = Some P' \<and>
               (case ev of
                  Cache_slot_write this st c \<Rightarrow>
                    (if accepts_cache P this st
                     then cache_detected P' \<and>
                          Webpack_cache_getAll (page_step h R ev) = Cache_value c
                     else cache_detected P' = cache_detected P \<and>
                          Webpack_cache_getAll (page_step h R ev) = Webpack_cache_getAll R)
                | Cache_entries_write entries \<Rightarrow>
                    cache_detected P' = cache_detected P \<and>
                    Webpack_cache_getAll (page_step h R ev) =
                      (if cache_detected P then Cache_value entries else Null)
                | _ \<Rightarrow>
                    cache_detected P' = cache_detected P \<and>
                    Webpack_cache_getAll (page_step h R ev) = Webpack_cache_getAll R \<and>
                    (\<forall>module_id. Webpack_cache_get module_id (page_step h R ev) =
                                 Webpack_cache_get module_id R))))"
proof -
  from reachable_invariant[of h es cfg ident] obtain P0 where
    P0: "pr_patcher R = Some P0" "patcher_invariant P0" by (auto simp: R_def)
  from P0(2) have wc: "(webpack_cache P0 = None) = (\<not> cache_detected P0)"
    by (simp add: patcher_invariant_def)
  have a: "moduleCache R = Webpack_cache_wrapper" by (simp add: moduleCache_def)
  have b: "\<not> is_webpack_detected R \<longrightarrow> webpackRequire R = Null \<and> moduleFactories R = Null"
    using P0 by (auto simp: is_webpack_detected_def webpackRequire_def moduleFactories_def
                      patcher_invariant_def split: option.splits)
  have c: "is_webpack_detected R \<longrightarrow> webpackRequire R \<noteq> Null \<and> moduleFactories R \<noteq> Null"
    using P0 by (auto simp: is_webpack_detected_def webpackRequire_def moduleFactories_def
                      patcher_invariant_def split: option.splits)
  have d: "\<forall>P this st mf. pr_patcher R = Some P \<and> accepts_modules P this st \<longrightarrow>
            webpackRequire (page_step h R (Modules_slot_write this st mf)) = Function_value this \<and>
            moduleFactories (page_step h R (Modules_slot_write this st mf)) =
              Factories_value (map_of (map (\<lambda>(module_id, fac). (module_id, Proxy fac)) mf))"
    by (simp add: on_patcher_def modules_setter_eq webpackRequire_def moduleFactories_def)
  have e: "\<forall>P ev. pr_patcher R = Some P \<and>
            (\<forall>this st mf. ev = Modules_slot_write this st mf \<longrightarrow> \<not> accepts_modules P this st) \<longrightarrow>
            webpackRequire (page_step h R ev) = webpackRequire R \<and>
            (moduleFactories (page_step h R ev) = Null) = (moduleFactories R = Null)"
  proof (intro allI impI)
    fix P ev
    assume that: "pr_patcher R = Some P \<and>
       (\<forall>this st mf. ev = Modules_slot_write this st mf \<longrightarrow> \<not> accepts_modules P this st)"
    from page_step_keeps[of R P ev h] that obtain P' where
      "pr_patcher (page_step h R ev) = Some P'" "webpack_require P' = webpack_require P"
      "(module_factories P' = None) = (module_factories P = None)" by auto
    with that show "webpackRequire (page_step h R ev) = webpackRequire R \<and>
            (moduleFactories (page_step h R ev) = Null) = (moduleFactories R = Null)"
      by (auto simp: webpackRequire_def moduleFactories_def split: option.splits)
  qed
  have f1: "es = [] \<longrightarrow> \<not> cache_detected P0"
    using P0(1) main_not_detected[of cfg ident P0] by (auto simp: R_def run_def)
  have f2: "\<not> cache_detected P0 \<longrightarrow>
              Webpack_cache_getAll R = Null \<and> (\<forall>module_id. Webpack_cache_get module_id R = Null)"
    using P0(1) wc by (auto simp: Webpack_cache_getAll_def Webpack_cache_get_def)
  have f3: "cache_detected P0 \<longrightarrow>
              (\<exists>c. Webpack_cache_getAll R = Cache_value c \<and>
                   (\<forall>module_id. Webpack_cache_get module_id R =
                      (case get_property c module_id of
                         Own (Module_object m) \<Rightarrow> Module_value m
                       | Own Falsy_value \<Rightarrow> Null
                       | Inherited \<Rightarrow> Inherited_member
                       | Absent \<Rightarrow> Null)))"
  proof
    assume "cache_detected P0"
    with wc obtain c where "webpack_cache P0 = Some c" by auto
    with P0(1) show "\<exists>c. Webpack_cache_getAll R = Cache_value c \<and>
                   (\<forall>module_id. Webpack_cache_get module_id R =
                      (case get_property c module_id of
                         Own (Module_object m) \<Rightarrow> Module_value m
                       | Own Falsy_value \<Rightarrow> Null
                       | Inherited \<Rightarrow> Inherited_member
                       | Absent \<Rightarrow> Null))"
      by (intro exI[of _ c]) (simp add: Webpack_cache_getAll_def Webpack_cache_get_def)
  qed
  have f4: "\<exists>P'. pr_patcher (page_step h R ev) = Some P' \<and>
               (case ev of
                  Cache_slot_write this st c \<Rightarrow>
                    (if accepts_cache P0 this st
                     then cache_detected P' \<and>
                          Webpack_cache_getAll (page_step h R ev) = Cache_value c
                     else cache_detected P' = cache_detected P0 \<and>
                          Webpack_cache_getAll (page_step h R ev) = Webpack_cache_getAll R)
                | Cache_entries_write entries \<Rightarrow>
                    cache_detected P' = cache_detected P0 \<and>
                    Webpack_cache_getAll (page_step h R ev) =
                      (if cache_detected P0 then Cache_value entries else Null)
                | _ \<Rightarrow>
                    cache_detected P' = cache_detected P0 \<and>
                    Webpack_cache_getAll (page_step h R ev) = Webpack_cache_getAll R \<and>
                    (\<forall>module_id. Webpack_cache_get module_id (page_step h R ev) =
                                 Webpack_cache_get module_id R))" for ev
  proof -
    from page_step_cache[OF P0, of h ev] obtain P' where
      P': "pr_patcher (page_step h R ev) = Some P'"
      and k: "case ev of
              Cache_slot_write this st c \<Rightarrow>
                (if accepts_cache P0 this st
                 then cache_detected P' \<and> webpack_cache P' = Some c
                 else cache_detected P' = cache_detected P0 \<and>
                      webpack_cache P' = webpack_cache P0)
            | Cache_entries_write entries \<Rightarrow>
                cache_detected P' = cache_detected P0 \<and>
                webpack_cache P' = (if cache_detected P0 then Some entries else None)
            | _ \<Rightarrow> cache_detected P' = cache_detected P0 \<and> webpack_cache P' = webpack_cache P0"
      by blast
    from k P' P0(1) show ?thesis
      by (intro exI[of _ P'])
         (cases ev; simp add: Webpack_cache_getAll_def Webpack_cache_get_def split: if_splits)
  qed
  have f: "\<exists>P. pr_patcher R = Some P \<and>
            (es = [] \<longrightarrow> \<not> cache_detected P) \<and>
            (\<not> cache_detected P \<longrightarrow>
               Webpack_cache_getAll R = Null \<and> (\<forall>module_id. Webpack_cache_get module_id R = Null)) \<and>
            (cache_detected P \<longrightarrow>
               (\<exists>c. Webpack_cache_getAll R = Cache_value c \<and>
                    (\<forall>module_id. Webpack_cache_get module_id R =
                       (case get_property c module_id of
                          Own (Module_object m) \<Rightarrow> Module_value m
                        | Own Falsy_value \<Rightarrow> Null
                        | Inherited \<Rightarrow> Inherited_member
                        | Absent \<Rightarrow> Null)))) \<and>
            (\<forall>ev. \<exists>P'. pr_patcher (page_step h R ev) = Some P' \<and>
               (case ev of
                  Cache_slot_write this st c \<Rightarrow>
                    (if accepts_cache P this st
                     then cache_detected P' \<and>
                          Webpack_cache_getAll (page_step h R ev) = Cache_value c
                     else cache_detected P' = cache_detected P \<and>
                          Webpack_cache_getAll (page_step h R ev) = Webpack_cache_getAll R)
                | Cache_entries_write entries \<Rightarrow>
                    cache_detected P' = cache_detected P \<and>
                    Webpack_cache_getAll (page_step h R ev) =
                      (if cache_detected P then Cache_value entries else Null)
                | _ \<Rightarrow>
                    cache_detected P' = cache_detected P \<and>
                    Webpack_cache_getAll (page_step h R ev) = Webpack_cache_getAll R \<and>
                    (\<forall>module_id. Webpack_cache_get module_id (page_step h R ev) =
                                 Webpack_cache_get module_id R)))"
    by (rule exI[of _ P0]) (intro conjI P0(1) f1 f2 f3 allI f4)
  from a b c d e f show ?thesis by (intro conjI)
qed

lemma example_accepts: "accepts_modules example_patcher example_require []"
  by code_simp

lemma example_accepts_cache: "accepts_cache example_patcher example_require []"
  by code_simp

theorem accessors_until_detection_witness:
  "webpackRequire (fst (main default_options ''k3x9q2ab'')) = Null \<and>
   moduleFactories (fst (main default_options ''k3x9q2ab'')) = Null \<and>
   webpackRequire (page_step example_host (fst (main default_options ''k3x9q2ab''))
       (Modules_slot_write example_require [] [(''7'', example_factory)])) =
     Function_value example_require \<and>
   Webpack_cache_getAll (fst (main default_options ''k3x9q2ab'')) = Null \<and>
   Webpack_cache_get ''7'' (fst (main default_options ''k3x9q2ab'')) = Null \<and>
   Webpack_cache_getAll (page_step example_host (fst (main default_options ''k3x9q2ab''))
       (Cache_slot_write example_require [] example_cache)) =
     Cache_value example_cache"
proof -
  let ?R = "run example_host [] (fst (main default_options ''k3x9q2ab''))"
  have R: "?R = fst (main default_options ''k3x9q2ab'')" by (simp add: run_def)
  have P: "pr_patcher ?R = Some example_patcher" by (rule example_patcher_main)
  have n: "\<not> is_webpack_detected ?R"
    by (simp add: P is_webpack_detected_def example_patcher_def initialize_def hook_webpack_def
          new_WebpackPatcher_def)
  note t = accessors_until_detection[of example_host "[]" default_options "''k3x9q2ab''"]
  from t n have a: "webpackRequire ?R = Null \<and> moduleFactories ?R = Null" by blast
  from t P example_accepts
  have b: "webpackRequire (page_step example_host ?R
          (Modules_slot_write example_require [] [(''7'', example_factory)])) =
        Function_value example_require" by blast
  from t P obtain P0 where
    P0: "pr_patcher ?R = Some P0" "\<not> cache_detected P0"
    and c1: "\<not> cache_detected P0 \<longrightarrow>
               Webpack_cache_getAll ?R = Null \<and> (\<forall>module_id. Webpack_cache_get module_id ?R = Null)"
    and c2: "\<forall>ev. \<exists>P'. pr_patcher (page_step example_host ?R ev) = Some P' \<and>
               (case ev of
                  Cache_slot_write this st c \<Rightarrow>
                    (if accepts_cache P0 this st
                     then cache_detected P' \<and>
                          Webpack_cache_getAll (page_step example_host ?R ev) = Cache_value c
                     else cache_detected P' = cache_detected P0 \<and>
                          Webpack_cache_getAll (page_step example_host ?R ev) =
                            Webpack_cache_getAll ?R)
                | Cache_entries_write entries \<Rightarrow>
                    cache_detected P' = cache_detected P0 \<and>
                    Webpack_cache_getAll (page_step example_host ?R ev) =
                      (if cache_detected P0 then Cache_value entries else Null)
                | _ \<Rightarrow>
                    cache_detected P' = cache_detected P0 \<and>
                    Webpack_cache_getAll (page_step example_host ?R ev) = Webpack_cache_getAll ?R \<and>
                    (\<forall>module_id. Webpack_cache_get module_id (page_step example_host ?R ev) =
                                 Webpack_cache_get module_id ?R))"
    by (elim conjE exE) (rule that; simp)
  from P0(1) P have P0e: "P0 = example_patcher" by simp
  from c1 P0(2) have c: "Webpack_cache_getAll ?R = Null \<and> Webpack_cache_get ''7'' ?R = Null"
    by blast
  from c2[rule_format, of "Cache_slot_write example_require [] example_cache"]
    example_accepts_cache P0e
  have d: "Webpack_cache_getAll (page_step example_host ?R
             (Cache_slot_write example_require [] example_cache)) = Cache_value example_cache"
    by auto
  from a b c d R show ?thesis by simp
qed

text \<open>
  Before detection \<open>moduleCache\<close> is not absent.
\<close>

theorem moduleCache_never_absent:
  "\<not> is_webpack_detected (fst (main default_options ''k3x9q2ab'')) \<and>
   webpackRequire (fst (main default_options ''k3x9q2ab'')) = Null \<and>
   moduleCache (fst (main default_options ''k3x9q2ab'')) \<noteq> Null"
  by (simp add: main_state new_WebpackPatchRegistrar_def is_webpack_detected_def
        webpackRequire_def moduleCache_def initialize_def hook_webpack_def new_WebpackPatcher_def)

section \<open>Listeners and the buffer of the registrar\<close>













section \<open>Registering a name twice\<close>

lemma register_patches_keeps:
  assumes "register_patches options ps ex P = Inr (r, P')"
      and "window_Registrars P n = Some v"
  shows "window_Registrars P' n = Some v"
  using assms
  by (auto simp: register_patches_def Let_def hook_webpack_def get_property_def
           split: option.splits if_splits property.splits)

lemma page_step_keeps_registrar:
  assumes R: "pr_patcher R = Some P" and s: "window_Registrars P n = Some r"
  shows "\<exists>P'. pr_patcher (page_step h R ev) = Some P' \<and> window_Registrars P' n = Some r"
proof -
  from page_step_cases[OF R, of h ev]
  consider "page_step h R ev = R"
    | P' where "page_step h R ev = R\<lparr>pr_patcher := Some P'\<rparr>"
        "case ev of
           Register options ps \<Rightarrow> \<exists>r. register_patches options ps None P = Inr (r, P')
         | Add_event_listener e cb \<Rightarrow> add_event_listener e cb P = Inr P'
         | Remove_event_listener e cb \<Rightarrow> remove_event_listener e cb P = Inr P'
         | Cache_slot_write this st c \<Rightarrow> P' = cache_setter this st c P
         | Cache_entries_write entries \<Rightarrow> P' = cache_entries_changed entries P
         | Modules_slot_write this st mf \<Rightarrow> modules_setter this st mf P = Inr P'
         | Factory_write mid fac \<Rightarrow> factories_set mid fac P = Inr P'
         | Factory_proxy_call mid fac \<Rightarrow>
             module_factories P \<noteq> None \<and>
             (\<exists>f. get_or_patch_factory h mid fac P = Inr (f, P'))"
    by blast
  then show ?thesis
  proof cases
    case 1
    with R s show ?thesis by simp
  next
    case 2
    have "window_Registrars P' n = Some r"
    proof (cases ev)
      case (Register options ps)
      with 2(2) obtain x where "register_patches options ps None P = Inr (x, P')" by auto
      from register_patches_keeps[OF this s] show ?thesis .
    next
      case (Add_event_listener e cb)
      with 2(2) add_event_listener_frame[of e cb P P'] s show ?thesis by simp
    next
      case (Remove_event_listener e cb)
      with 2(2) remove_event_listener_frame[of e cb P P'] s show ?thesis by simp
    next
      case (Cache_slot_write this st c)
      with 2(2) s show ?thesis by (simp add: cache_setter_cases)
    next
      case (Cache_entries_write entries)
      with 2(2) s show ?thesis by (simp add: cache_entries_changed_def split: option.splits)
    next
      case (Modules_slot_write this st mf)
      with 2(2) s show ?thesis by (auto simp: modules_setter_eq split: if_splits)
    next
      case (Factory_write mid fac)
      with 2(2) s show ?thesis by (auto simp: factories_set_eq)
    next
      case (Factory_proxy_call mid fac)
      with 2(2) obtain f where "get_or_patch_factory h mid fac P = Inr (f, P')" by auto
      from get_or_patch_factory_frame[OF this] s show ?thesis by simp
    qed
    with 2(1) show ?thesis by simp
  qed
qed

lemma run_keeps_registrar:
  assumes "pr_patcher R = Some P" and "window_Registrars P n = Some r"
  shows "\<exists>P'. pr_patcher (run h es R) = Some P' \<and> window_Registrars P' n = Some r"
  using assms
proof (induction es arbitrary: R P)
  case Nil
  then show ?case by (simp add: run_def)
next
  case (Cons ev es)
  from page_step_keeps_registrar[OF Cons.prems, of h ev] obtain P1 where
    "pr_patcher (page_step h R ev) = Some P1" "window_Registrars P1 n = Some r" by blast
  from Cons.IH[OF this] show ?case by (simp add: run_def)
qed

text \<open>
  For a name that no object inherits, \<open>register\<close> is idempotent.  In every state of a
  run, a call with such a name returns a registrar object: if the name was not registered
  before, the object is made from the data and functions handed in, otherwise it is the
  object already registered; no existing slot of \<open>Registrars\<close> is changed by the
  call; and after any further events, every later call with the same name, whatever data,
  functions and patches it brings, returns the same object.
\<close>

lemma register_own_name_idempotent:
  assumes name: "opt_name options = Some name" "name \<noteq> []"
      and own: "name \<notin> set Object_prototype_keys"
  shows "\<exists>P r1 R1.
           pr_patcher (run h es (fst (main cfg ident))) = Some P \<and>
           registrar_register_patches options ps (run h es (fst (main cfg ident))) =
             Inr (Own r1, R1) \<and>
           (window_Registrars P name = None \<longrightarrow>
              r1 = new_registrar_obj (Made_by_patcher name) options) \<and>
           (\<forall>r. window_Registrars P name = Some r \<longrightarrow> r1 = r) \<and>
           (\<forall>n r. window_Registrars P n = Some r \<longrightarrow>
              (\<exists>P1. pr_patcher R1 = Some P1 \<and> window_Registrars P1 n = Some r)) \<and>
           (\<forall>es' options' ps'. opt_name options' = Some name \<longrightarrow>
              (\<exists>R2. registrar_register_patches options' ps' (run h es' R1) = Inr (Own r1, R2)))"
proof -
  let ?R = "run h es (fst (main cfg ident))"
  from reachable_invariant[of h es cfg ident] obtain P where P: "pr_patcher ?R = Some P" by blast
  from register_patches_idempotent[OF name own, of ps P] obtain r1 P1 where
    reg: "register_patches options ps None P = Inr (Own r1, P1)"
    and slot: "window_Registrars P1 name = Some r1"
    and fresh: "window_Registrars P name = None \<longrightarrow>
                  r1 = new_registrar_obj (Made_by_patcher name) options"
    and keep: "\<forall>n r. window_Registrars P n = Some r \<longrightarrow> window_Registrars P1 n = Some r"
    by (elim exE conjE) (rule that; assumption)
  let ?R1 = "?R\<lparr>pr_patcher := Some P1\<rparr>"
  have pub: "registrar_register_patches options ps ?R = Inr (Own r1, ?R1)"
    using P reg by (simp add: registrar_register_patches_def)
  have old: "\<forall>r. window_Registrars P name = Some r \<longrightarrow> r1 = r"
    using keep slot by auto
  have later: "\<exists>R2. registrar_register_patches options' ps' (run h es' ?R1) = Inr (Own r1, R2)"
    if "opt_name options' = Some name" for es' options' ps'
  proof -
    have "pr_patcher ?R1 = Some P1" by simp
    from run_keeps_registrar[OF this slot, of h es'] obtain P2 where
      P2: "pr_patcher (run h es' ?R1) = Some P2" "window_Registrars P2 name = Some r1" by blast
    from register_patches_Inr[OF that name(2), of ps' None P2] P2(2)
    obtain P3 where "register_patches options' ps' None P2 = Inr (Own r1, P3)"
      by (auto simp: get_property_def)
    with P2(1) show ?thesis by (simp add: registrar_register_patches_def)
  qed
  from P pub fresh old keep later show ?thesis
    by (intro exI[of _ P] exI[of _ r1] exI[of _ ?R1]) auto
qed

lemma register_own_name_idempotent_example:
  "map_sum id fst (registrar_register_patches demo_options [patch_foo]
       (fst (main default_options ''k3x9q2ab''))) =
     Inr (Own (new_registrar_obj (Made_by_patcher ''Demo'') demo_options)) \<and>
   map_sum id fst (registrar_register_patches other_options []
       (run example_host [Modules_slot_write example_require [] [(''7'', example_factory)]]
          after_first_register)) =
     Inr (Own (new_registrar_obj (Made_by_patcher ''Demo'') demo_options))"
proof -
  let ?R = "run example_host [] (fst (main default_options ''k3x9q2ab''))"
  have R: "?R = fst (main default_options ''k3x9q2ab'')" by (simp add: run_def)
  have n: "opt_name demo_options = Some ''Demo''" "opt_name other_options = Some ''Demo''"
    by (simp_all add: demo_options_def other_options_def)
  have ne: "''Demo'' \<noteq> []" by simp
  have own: "''Demo'' \<notin> set Object_prototype_keys" by (simp add: Object_prototype_keys_def)
  from register_own_name_idempotent[OF n(1) ne own, of example_host "[]" default_options
         "''k3x9q2ab''" "[patch_foo]"]
  obtain P r1 R1 where
    P: "pr_patcher ?R = Some P"
    and reg: "registrar_register_patches demo_options [patch_foo] ?R = Inr (Own r1, R1)"
    and fresh: "window_Registrars P ''Demo'' = None \<longrightarrow>
                  r1 = new_registrar_obj (Made_by_patcher ''Demo'') demo_options"
    and later: "\<forall>es' options' ps'. opt_name options' = Some ''Demo'' \<longrightarrow>
                  (\<exists>R2. registrar_register_patches options' ps' (run example_host es' R1) =
                          Inr (Own r1, R2))"
    by (elim exE conjE) (rule that; assumption)
  from P example_patcher_main[of example_host] have "P = example_patcher" by simp
  then have "window_Registrars P ''Demo'' = None"
    by (simp add: example_patcher_def initialize_def hook_webpack_def new_WebpackPatcher_def)
  with fresh have r1: "r1 = new_registrar_obj (Made_by_patcher ''Demo'') demo_options" by simp
  from reg R have R1: "after_first_register = R1" by (simp add: after_first_register_def)
  from later n(2) obtain R2 where
    "registrar_register_patches other_options []
       (run example_host [Modules_slot_write example_require [] [(''7'', example_factory)]] R1) =
     Inr (Own r1, R2)" by blast
  with reg R R1 r1 show ?thesis by simp
qed

text \<open>
  C5.  \<open>Registrars\<close> is a plain object, and the test
  \<open>!window.WebpackPatcher.Registrars[registrar_name]\<close> is not passed by a name that
  every object inherits.  The first \<open>register\<close> call with the name
  \<open>constructor\<close> therefore creates no registrar: the data handed in is dropped, the
  value returned is the inherited member, neither \<open>Registrars\<close> nor the patcher's own
  table gets a slot of that name, and the patch is registered under the name all the same.
\<close>

theorem inherited_name_creates_no_registrar:
  "(case registrar_register_patches constructor_options [patch_foo]
           (fst (main default_options ''k3x9q2ab'')) of
      Inl e \<Rightarrow> False
    | Inr (r, R1) \<Rightarrow>
        r = Inherited \<and>
        (case pr_patcher R1 of
           None \<Rightarrow> False
         | Some P \<Rightarrow>
             window_Registrars P ''constructor'' = None \<and>
             registrars P ''constructor'' = None \<and>
             map p_registrar_name (patches P) = [''constructor'']))"
  by (simp add: registrar_register_patches_def main_state new_WebpackPatchRegistrar_def
        register_patches_def constructor_options_def get_property_def Object_prototype_keys_def
        initialize_def hook_webpack_def new_WebpackPatcher_def Let_def patch_foo_def)
end
